theory Spec2Isabelle
  imports Main
begin

section \<open>Errors\<close>

text \<open>
  The source signals every failure by throwing a string. Each thrown string is one
  constructor here; the comments give the literal that is thrown.
  \<open>TypeErrorJS\<close> stands for the runtime's own TypeError (a property read on
  \<open>undefined\<close>), and \<open>OutOfFuel\<close> is not an error of the program: it marks a
  run of the fuel-bounded evaluator that was cut off.
\<close>

datatype error =
    InvalidPath              \<comment> \<open>"invalid index path for tree"\<close>
  | InvalidTypePassed        \<comment> \<open>"invalid type passed to typeVarOccurs"\<close>
  | HoleEvaluated            \<comment> \<open>"evaluating hole as expression"\<close>
  | UnboundVariable string   \<comment> \<open>"unbound variable: " + id\<close>
  | NotCallable              \<comment> \<open>"cannot call non-function"\<close>
  | DefineNeedsName          \<comment> \<open>"'define' must be given a name"\<close>
  | NotImplemented           \<comment> \<open>"TODO"\<close>
  | ArityMismatch
  | TypeMismatch
  | NativeError string
  | TypeErrorJS
  | OutOfFuel

section \<open>Type system (typechecker/type.ts, typechecker/type-substitution.ts)\<close>

datatype TypeVarSlot =
    TypeNameHole               \<comment> \<open>\<open>{ kind: "type-name-hole" }\<close>\<close>
  | TypeNameBinding string     \<comment> \<open>\<open>{ kind: "type-name-binding", id }\<close>\<close>

text \<open>
  \<open>Type = ConcreteType | ForallType | TypeVar | TypeVarSlot\<close>. A concrete type carries
  its tag, the optional parameter list \<open>of\<close> and, for the variadic function tag, the
  optional argument-count bounds. The field \<open>forall\<close> of a quantifier is declared as
  \<open>TypeVarSlot[]\<close>; its elements are objects like any other type, and
  \<open>isTypeVarBoundBy\<close> inspects them as such, so they are values of \<open>Type\<close> here, and
  \<open>conforms\<close> says that every quantifier of a type holds slots only, as declared.
\<close>

datatype Type =
    ConcreteType string "Type list option" "nat option" "nat option"
  | ForallType "Type list" Type
  | TypeVar string
  | Slot TypeVarSlot

fun isConcreteType :: "Type \<Rightarrow> bool" where
  "isConcreteType (ConcreteType tg ps mn mx) = True"
| "isConcreteType t = False"

fun isTypeVar :: "Type \<Rightarrow> bool" where
  "isTypeVar (TypeVar v) = True"
| "isTypeVar t = False"

fun isForallType :: "Type \<Rightarrow> bool" where
  "isForallType (ForallType sl b) = True"
| "isForallType t = False"

fun isTypeNameHole :: "Type \<Rightarrow> bool" where
  "isTypeNameHole (Slot TypeNameHole) = True"
| "isTypeNameHole t = False"

fun isTypeNameBinding :: "Type \<Rightarrow> bool" where
  "isTypeNameBinding (Slot (TypeNameBinding i)) = True"
| "isTypeNameBinding t = False"

definition isTypeVarSlot :: "Type \<Rightarrow> bool" where
  "isTypeVarSlot t = (isTypeNameHole t \<or> isTypeNameBinding t)"

text \<open>The \<open>var\<close> property of an object: present on a \<open>TypeVar\<close> only.\<close>

fun var_of :: "Type \<Rightarrow> string option" where
  "var_of (TypeVar v) = Some v"
| "var_of t = None"

fun typeParams :: "Type \<Rightarrow> Type list" where
  "typeParams (TypeVar v) = []"
| "typeParams (Slot s) = []"
| "typeParams (ForallType sl b) = typeParams b"
| "typeParams (ConcreteType tg ps mn mx) = (case ps of None \<Rightarrow> [] | Some ts \<Rightarrow> ts)"

text \<open>
  \<open>isTypeVarBoundBy\<close> walks the slots of the quantifier and asks
  \<open>isTypeVar(slot) && slot.var === name\<close> of each.
\<close>

definition isTypeVarBoundBy :: "string \<Rightarrow> Type list \<Rightarrow> bool" where
  "isTypeVarBoundBy typeVarName slots =
     list_ex (\<lambda>slot. isTypeVar slot \<and> var_of slot = Some typeVarName) slots"

text \<open>
  A \<open>TypeSubstitution\<close> is the map of the own keys of the record to their types. The
  source reads \<open>sub[type.var]\<close>, which also finds what the record inherits
  (\<open>toString\<close>, \<open>constructor\<close>, ...); type variables with the name of a property of
  \<open>Object.prototype\<close> are outside this model.
\<close>

type_synonym TypeSubstitution = "string \<rightharpoonup> Type"

function (sequential) typeSubstitute :: "Type \<Rightarrow> TypeSubstitution \<Rightarrow> Type" where
  "typeSubstitute (Slot s) sub = Slot s"
| "typeSubstitute (TypeVar v) sub = (case sub v of Some t \<Rightarrow> t | None \<Rightarrow> TypeVar v)"
| "typeSubstitute (ForallType sl b) sub = ForallType sl (typeSubstitute b sub)"
| "typeSubstitute (ConcreteType tg ps mn mx) sub =
     (let params = map (\<lambda>typeParam. typeSubstitute typeParam sub)
                       (typeParams (ConcreteType tg ps mn mx))
      in if params \<noteq> [] then ConcreteType tg (Some params) None None
         else ConcreteType tg None None None)"
  by pat_completeness auto
termination
proof (relation "measure (\<lambda>(t, sub). size t)")
  show "wf (measure (\<lambda>(t, sub). size t))" by simp
next
  fix sl b and sub :: TypeSubstitution
  show "((b, sub), ForallType sl b, sub) \<in> measure (\<lambda>(t, sub). size t)" by simp
next
  fix tg ps mn mx and sub :: TypeSubstitution and x
  assume "x \<in> set (typeParams (ConcreteType tg ps mn mx))"
  then obtain ts where ps: "ps = Some ts" and x: "x \<in> set ts"
    by (cases ps) auto
  from x have "size x < Suc (size_list size ts)"
    by (induction ts) auto
  with ps show "((x, sub), ConcreteType tg ps mn mx, sub) \<in> measure (\<lambda>(t, sub). size t)"
    by simp
qed

text \<open>
  \<open>Array.prototype.some\<close> over the results of the callback: it stops at the first
  \<open>true\<close>, and an exception thrown by the callback on an earlier element escapes.
\<close>

fun some_results :: "(error + bool) list \<Rightarrow> error + bool" where
  "some_results [] = Inr False"
| "some_results (Inl e # rs) = Inl e"
| "some_results (Inr True # rs) = Inr True"
| "some_results (Inr False # rs) = some_results rs"

function (sequential) typeVarOccurs :: "string \<Rightarrow> Type \<Rightarrow> error + bool" where
  "typeVarOccurs typeVarName (TypeVar v) = Inr (v = typeVarName)"
| "typeVarOccurs typeVarName (ForallType sl b) =
     (if isTypeVarBoundBy typeVarName sl then Inr False
      else typeVarOccurs typeVarName b)"
| "typeVarOccurs typeVarName (ConcreteType tg ps mn mx) =
     some_results (map (\<lambda>child. typeVarOccurs typeVarName child)
                       (case ps of None \<Rightarrow> [] | Some ts \<Rightarrow> ts))"
| "typeVarOccurs typeVarName (Slot TypeNameHole) = Inr False"
| "typeVarOccurs typeVarName (Slot (TypeNameBinding i)) = Inl InvalidTypePassed"
  by pat_completeness auto
termination
proof (relation "measure (\<lambda>(n, t). size t)")
  show "wf (measure (\<lambda>(n, t). size t))" by simp
next
  fix n :: string and sl b
  show "((n, b), n, ForallType sl b) \<in> measure (\<lambda>(n, t). size t)" by simp
next
  fix n :: string and tg mn mx and ps :: "Type list option" and x :: Type
  assume "x \<in> set (case ps of None \<Rightarrow> [] | Some ts \<Rightarrow> ts)"
  then obtain ts where ps: "ps = Some ts" and x: "x \<in> set ts"
    by (cases ps) auto
  from x have "size x < Suc (size_list size ts)"
    by (induction ts) auto
  with ps show "((n, x), n, ConcreteType tg ps mn mx) \<in> measure (\<lambda>(n, t). size t)"
    by simp
qed


text \<open>A type whose quantifiers hold slots only, as the declaration of \<open>ForallType\<close> says.\<close>

function (sequential) conforms :: "Type \<Rightarrow> bool" where
  "conforms (ForallType sl b) = (list_all isTypeVarSlot sl \<and> conforms b)"
| "conforms (ConcreteType tg ps mn mx) =
     list_all conforms (case ps of None \<Rightarrow> [] | Some ts \<Rightarrow> ts)"
| "conforms t = True"
  by pat_completeness auto
termination
proof (relation "measure size")
  show "wf (measure size)" by simp
next
  fix sl :: "Type list" and b :: Type
  show "(b, ForallType sl b) \<in> measure size" by simp
next
  fix tg mn mx and ps :: "Type list option" and x :: Type
  assume "x \<in> set (case ps of None \<Rightarrow> [] | Some ts \<Rightarrow> ts)"
  then obtain ts where ps: "ps = Some ts" and x: "x \<in> set ts"
    by (cases ps) auto
  from x have "size x < Suc (size_list size ts)"
    by (induction ts) auto
  with ps show "(x, ConcreteType tg ps mn mx) \<in> measure size"
    by simp
qed

section \<open>Expression forest (editor/trees/trees.ts)\<close>

text \<open>
  Expressions are objects of the runtime: a node has an identity (its address), the
  mutation engine compares nodes with \<open>===\<close> and overwrites child slots in place.
  The heap maps every address to the node stored there; \<open>nextRef\<close> is the first
  address that no object occupies yet.
\<close>

type_synonym ref = nat

type_synonym Point = "int \<times> int"

datatype Node =
    Atom string
  | Hole
  | SExpr "ref list"

record Tree =
  tree_id :: string
  root :: ref
  location :: "Point option"

record Forest =
  heap :: "ref \<Rightarrow> Node"
  nextRef :: ref
  trees_store :: "Tree list"   \<comment> \<open>the module variable \<open>trees_\<close>\<close>
  nextID :: nat

text \<open>The template literal \<open>`${n}`\<close>: the decimal numeral of a counter.\<close>

definition digit_char :: "nat \<Rightarrow> char" where
  "digit_char d = ''0123456789'' ! d"

function string_of_nat :: "nat \<Rightarrow> string" where
  "string_of_nat n =
     (if n < 10 then [digit_char n]
      else string_of_nat (n div 10) @ [digit_char (n mod 10)])"
  by pat_completeness auto
termination
  by (relation "measure id") auto

declare string_of_nat.simps [simp del]

definition trees :: "Forest \<Rightarrow> Tree list" where
  "trees s = trees_store s"

definition treeByID :: "string \<Rightarrow> Forest \<Rightarrow> Tree option" where
  "treeByID i s = find (\<lambda>tree. tree_id tree = i) (trees_store s)"

definition newTree :: "ref \<Rightarrow> Point option \<Rightarrow> Forest \<Rightarrow> Tree \<times> Forest" where
  "newTree rt loc s =
     (let n = nextID s + 1;
          tree = \<lparr>tree_id = string_of_nat n, root = rt, location = loc\<rparr>
      in (tree, s\<lparr>nextID := n, trees_store := trees_store s @ [tree]\<rparr>))"

definition removeTree :: "Tree \<Rightarrow> Forest \<Rightarrow> Forest" where
  "removeTree tree s =
     s\<lparr>trees_store := filter (\<lambda>t. tree_id t \<noteq> tree_id tree) (trees_store s)\<rparr>"

text \<open>A session of the forest: creations and removals, with the log of what was created.\<close>

datatype forest_op = NewTree ref "Point option" | RemoveTree Tree

fun run_ops :: "forest_op list \<Rightarrow> Tree list \<times> Forest \<Rightarrow> Tree list \<times> Forest" where
  "run_ops [] cs = cs"
| "run_ops (NewTree rt loc # ops) (created, s) =
     (case newTree rt loc s of (tree, s1) \<Rightarrow> run_ops ops (created @ [tree], s1))"
| "run_ops (RemoveTree tree # ops) (created, s) =
     run_ops ops (created, removeTree tree s)"

definition initial_forest :: "(ref \<Rightarrow> Node) \<Rightarrow> ref \<Rightarrow> Forest" where
  "initial_forest h r = \<lparr>heap = h, nextRef = r, trees_store = [], nextID = 0\<rparr>"

section \<open>Structural mutation (editor/trees/mutate.ts)\<close>

text \<open>
  Modelled from the spec: the module \<open>./ast\<close> (\<open>hole\<close>, \<open>isHole\<close>, \<open>isSExpr\<close>,
  \<open>childAtIndex\<close>, \<open>setChildAtIndex\<close>) is not among the sources. The spec gives a
  composite node an ordered list of child slots, has the selection of a child fail
  with InvalidPath when the index is out of range, and has the replacement of a slot
  leave its siblings alone. The hole is one shared sentinel object, here at address 0;
  being a hole is a property of the node, so that a copy of the sentinel is a hole too.
  A write to an index that names no slot (out of range, or \<open>undefined\<close>) changes no slot.
\<close>

definition hole :: ref where
  "hole = 0"

definition isHole :: "(ref \<Rightarrow> Node) \<Rightarrow> ref \<Rightarrow> bool" where
  "isHole h e = (h e = Hole)"

definition isSExpr :: "(ref \<Rightarrow> Node) \<Rightarrow> ref \<Rightarrow> bool" where
  "isSExpr h e = (case h e of SExpr cs \<Rightarrow> True | _ \<Rightarrow> False)"

definition childAtIndex :: "(ref \<Rightarrow> Node) \<Rightarrow> ref \<Rightarrow> nat \<Rightarrow> error + ref" where
  "childAtIndex h e index =
     (case h e of
        SExpr cs \<Rightarrow> if index < length cs then Inr (cs ! index) else Inl InvalidPath
      | _ \<Rightarrow> Inl InvalidPath)"

definition setChildAtIndex :: "ref \<Rightarrow> nat option \<Rightarrow> ref \<Rightarrow> Forest \<Rightarrow> Forest" where
  "setChildAtIndex e index newChild s =
     (case (heap s e, index) of
        (SExpr cs, Some i) \<Rightarrow>
          if i < length cs then s\<lparr>heap := (heap s)(e := SExpr (cs[i := newChild]))\<rparr> else s
      | _ \<Rightarrow> s)"

record TreeIndexPath =
  tree :: Tree
  path :: "nat list"

text \<open>\<open>indexPath.at(-1)\<close>: the last index, \<open>undefined\<close> on the empty path.\<close>

definition at_last :: "nat list \<Rightarrow> nat option" where
  "at_last p = (if p = [] then None else Some (last p))"

text \<open>The loop of \<open>exprForIndexPathInTree\<close>, from a current node.\<close>

fun exprForIndexPath :: "(ref \<Rightarrow> Node) \<Rightarrow> ref \<Rightarrow> nat list \<Rightarrow> error + ref" where
  "exprForIndexPath h rt [] = Inr rt"
| "exprForIndexPath h rt (index # indexPath) =
     (if \<not> isSExpr h rt then Inl InvalidPath
      else case childAtIndex h rt index of
             Inl e \<Rightarrow> Inl e
           | Inr c \<Rightarrow> exprForIndexPath h c indexPath)"

definition exprForIndexPathInTree :: "Forest \<Rightarrow> Tree \<Rightarrow> nat list \<Rightarrow> error + ref" where
  "exprForIndexPathInTree s t indexPath = exprForIndexPath (heap s) (root t) indexPath"

text \<open>
  \<open>cloneDeep\<close> of lodash: every object reachable from the argument is copied once,
  a second visit returns the copy already made (so sharing and cycles are kept), and no
  copy is an object of the original. The recursion is bounded by the number of objects:
  each level of it registers an object not yet copied.
\<close>

record clone_state =
  memo :: "ref \<rightharpoonup> ref"
  cheap :: "ref \<Rightarrow> Node"
  cnext :: ref

fun clone_node :: "nat \<Rightarrow> ref \<Rightarrow> clone_state \<Rightarrow> (ref \<times> clone_state) option"
and clone_children :: "nat \<Rightarrow> ref list \<Rightarrow> clone_state \<Rightarrow> (ref list \<times> clone_state) option"
where
  "clone_node 0 r cs = None"
| "clone_node (Suc n) r cs =
     (case memo cs r of
        Some r' \<Rightarrow> Some (r', cs)
      | None \<Rightarrow>
          (let r' = cnext cs;
               cs1 = cs\<lparr>memo := (memo cs)(r \<mapsto> r'), cnext := Suc r'\<rparr>
           in case cheap cs r of
                SExpr children \<Rightarrow>
                  (case clone_children n children cs1 of
                     None \<Rightarrow> None
                   | Some (children', cs2) \<Rightarrow>
                       Some (r', cs2\<lparr>cheap := (cheap cs2)(r' := SExpr children')\<rparr>))
              | node \<Rightarrow> Some (r', cs1\<lparr>cheap := (cheap cs1)(r' := node)\<rparr>)))"
| "clone_children n [] cs = Some ([], cs)"
| "clone_children n (c # children) cs =
     (case clone_node n c cs of
        None \<Rightarrow> None
      | Some (c', cs1) \<Rightarrow>
          (case clone_children n children cs1 of
             None \<Rightarrow> None
           | Some (children', cs2) \<Rightarrow> Some (c' # children', cs2)))"

definition cloneDeep :: "ref \<Rightarrow> Forest \<Rightarrow> (ref \<times> Forest) option" where
  "cloneDeep r s =
     (case clone_node (Suc (nextRef s)) r \<lparr>memo = Map.empty, cheap = heap s, cnext = nextRef s\<rparr> of
        None \<Rightarrow> None
      | Some (r', cs) \<Rightarrow> Some (r', s\<lparr>heap := cheap cs, nextRef := cnext cs\<rparr>))"

text \<open>
  The part that \<open>moveExprInTree\<close> and \<open>copyExprInTree\<close> share word for word: the
  source leaves its place. A root takes its whole tree out of the forest, any other
  node leaves a hole in its parent.
\<close>

definition detachSource :: "ref \<Rightarrow> Tree \<Rightarrow> nat list \<Rightarrow> Forest \<Rightarrow> error + Forest" where
  "detachSource source sourceTree sourceIndexPath s =
     (if source = root sourceTree then Inr (removeTree sourceTree s)
      else case exprForIndexPathInTree s sourceTree (butlast sourceIndexPath) of
             Inl e \<Rightarrow> Inl e
           | Inr sourceParent \<Rightarrow>
               if \<not> isSExpr (heap s) sourceParent then Inl InvalidPath
               else Inr (setChildAtIndex sourceParent (at_last sourceIndexPath) hole s))"

definition moveExprInTree ::
  "TreeIndexPath \<Rightarrow> TreeIndexPath \<Rightarrow> Forest \<Rightarrow> (error + unit) \<times> Forest" where
  "moveExprInTree src dst s =
     (let sourceTree = tree src; sourceIndexPath = path src;
          destinationTree = tree dst; destinationIndexPath = path dst
      in
      if length destinationIndexPath < 2 then (Inr (), s)
      else case exprForIndexPathInTree s sourceTree sourceIndexPath of
        Inl e \<Rightarrow> (Inl e, s)
      | Inr source \<Rightarrow>
      (case exprForIndexPathInTree s destinationTree destinationIndexPath of
        Inl e \<Rightarrow> (Inl e, s)
      | Inr destination \<Rightarrow>
      (case exprForIndexPathInTree s destinationTree (butlast destinationIndexPath) of
        Inl e \<Rightarrow> (Inl e, s)
      | Inr destinationParent \<Rightarrow>
          if \<not> isSExpr (heap s) destinationParent then (Inl InvalidPath, s)
          else if destination = source \<or> destination = root destinationTree then (Inr (), s)
          else (case detachSource source sourceTree sourceIndexPath s of
                  Inl e \<Rightarrow> (Inl e, s)
                | Inr s1 \<Rightarrow>
                    (let s2 = setChildAtIndex destinationParent
                                (at_last destinationIndexPath) source s1
                     in if \<not> isHole (heap s2) destination
                        then (Inr (), snd (newTree destination None s2))
                        else (Inr (), s2))))))"

definition copyExprInTree ::
  "TreeIndexPath \<Rightarrow> TreeIndexPath \<Rightarrow> Forest \<Rightarrow> (error + unit) \<times> Forest" where
  "copyExprInTree src dst s =
     (let sourceTree = tree src; sourceIndexPath = path src;
          destinationTree = tree dst; destinationIndexPath = path dst
      in
      if length destinationIndexPath < 2 then (Inr (), s)
      else case exprForIndexPathInTree s sourceTree sourceIndexPath of
        Inl e \<Rightarrow> (Inl e, s)
      | Inr source \<Rightarrow>
      (case detachSource source sourceTree sourceIndexPath s of
        Inl e \<Rightarrow> (Inl e, s)
      | Inr s1 \<Rightarrow>
      (case exprForIndexPathInTree s1 destinationTree destinationIndexPath of
        Inl e \<Rightarrow> (Inl e, s1)
      | Inr destination \<Rightarrow>
      (case exprForIndexPathInTree s1 destinationTree (butlast destinationIndexPath) of
        Inl e \<Rightarrow> (Inl e, s1)
      | Inr destinationParent \<Rightarrow>
          if \<not> isSExpr (heap s1) destinationParent then (Inl InvalidPath, s1)
          else if destination = source \<or> destination = root destinationTree then (Inr (), s1)
          else (case cloneDeep source s1 of
                  None \<Rightarrow> (Inl OutOfFuel, s1)
                | Some (copy, s2) \<Rightarrow>
                    (let s3 = setChildAtIndex destinationParent
                                (at_last destinationIndexPath) copy s2
                     in if \<not> isHole (heap s3) destination
                        then (Inr (), snd (newTree destination None s3))
                        else (Inr (), s3)))))))"

definition orphanExpr :: "TreeIndexPath \<Rightarrow> Forest \<Rightarrow> (error + unit) \<times> Forest" where
  "orphanExpr loc s =
     (case exprForIndexPathInTree s (tree loc) (path loc) of
        Inl e \<Rightarrow> (Inl e, s)
      | Inr expr \<Rightarrow>
      (case exprForIndexPathInTree s (tree loc) (butlast (path loc)) of
        Inl e \<Rightarrow> (Inl e, s)
      | Inr exprParent \<Rightarrow>
          if \<not> isSExpr (heap s) exprParent then (Inr (), s)
          else (let s1 = setChildAtIndex exprParent (at_last (path loc)) hole s
                in if \<not> isHole (heap s1) expr
                   then (Inr (), snd (newTree expr None s1))
                   else (Inr (), s1))))"


section \<open>Values, environments and cells (evaluator, editor/library/environments.ts)\<close>

text \<open>
  Literal data. The payload of a number is only ever copied by the evaluator, never
  computed with; it is an integer here. The hole is the distinguished datum that stands
  for an empty slot.
\<close>

datatype Datum =
    DNumber int
  | DBool bool
  | DString string
  | DSymbol string
  | DList "Datum list" "Datum option"
  | DHole

datatype Expr =
    Lit Datum
  | Var string
  | Call Expr "Expr list"
  | Define Expr Expr
  | Let "(Expr \<times> Expr) list" Expr
  | Letrec "(Expr \<times> Expr) list" Expr
  | Lambda "Expr list" Expr
  | Sequence "Expr list"
  | If Expr Expr Expr
  | Cond
  | NameBinding string "Type option"
  | TypeExpr Type

text \<open>
  A \<open>Cell\<close> is a mutable object shared by every environment that holds it: cells live in
  a store and a binding holds the address of its cell. An empty cell stores \<open>None\<close>.
  The optional attributes of a binding (documentation, declared types, arity bounds,
  interface hints) are never read or written by the evaluator and are left out.
\<close>

type_synonym addr = nat

record Binding =
  name :: string
  cell :: addr

type_synonym Environment = "string \<rightharpoonup> Binding"

datatype Param = Param (pname: string) (ptype: "string option") (variadic: bool)

datatype FnBody =
    Interpreted Expr
  | Native string      \<comment> \<open>a builtin body, named by its binding in the initial environment\<close>

datatype Value =
    VNumber int
  | VBool bool
  | VString string
  | VSymbol string
  | VHole
  | VList "Value list" "Value option"
  | VFn "Param list" FnBody "Environment option"

fun valueOfDatum :: "Datum \<Rightarrow> Value" where
  "valueOfDatum (DNumber n) = VNumber n"
| "valueOfDatum (DBool b) = VBool b"
| "valueOfDatum (DString x) = VString x"
| "valueOfDatum (DSymbol x) = VSymbol x"
| "valueOfDatum (DList heads rest) = VList (map valueOfDatum heads) (map_option valueOfDatum rest)"
| "valueOfDatum DHole = VHole"

text \<open>
  Modelled from the spec: \<open>isHole\<close> of \<open>editor/trees/tree\<close> is not among the sources.
  It recognises the distinguished hole value among the literal kinds.
\<close>

definition isHoleDatum :: "Datum \<Rightarrow> bool" where
  "isHoleDatum d = (d = DHole)"

text \<open>
  Modelled from the spec: the class \<open>Defines\<close> of \<open>evaluator/defines\<close> is not among the
  sources. A name is registered with a lazy producer; the first lookup runs the producer
  and keeps the cell for later lookups. A producer registered by \<open>define\<close> is the
  closure \<open>() => ({ value: this.#eval(expr.value) })\<close>, represented by the expression
  it evaluates.
\<close>

datatype DefEntry = Producer Expr | Resolved addr

text \<open>
  The evaluator object with the part of the runtime it works on: the fields \<open>baseEnv\<close>,
  \<open>env\<close> (unset until the first evaluation) and \<open>defines\<close>, the store of cells, and
  the meaning of the builtin bodies that never touch the evaluator (by name; arithmetic,
  predicates, list construction), which evaluation never changes.
\<close>

record EvalState =
  baseEnv :: Environment
  env :: "Environment option"
  defs :: "string \<rightharpoonup> DefEntry"   \<comment> \<open>the field \<open>defines\<close>\<close>
  cells :: "Value option list"
  natives :: "string \<Rightarrow> Value list \<Rightarrow> error + Value"

definition allocCell :: "Value option \<Rightarrow> EvalState \<Rightarrow> addr \<times> EvalState" where
  "allocCell v s = (length (cells s), s\<lparr>cells := cells s @ [v]\<rparr>)"

definition cellValue :: "EvalState \<Rightarrow> addr \<Rightarrow> Value option" where
  "cellValue s c = (if c < length (cells s) then cells s ! c else None)"

definition setCell :: "addr \<Rightarrow> Value \<Rightarrow> EvalState \<Rightarrow> EvalState" where
  "setCell c v s = s\<lparr>cells := (cells s)[c := Some v]\<rparr>"

text \<open>\<open>keyBy(bindings, b => b.name)\<close>: a later binding of a name replaces an earlier one.\<close>

definition makeEnv :: "Binding list \<Rightarrow> Environment" where
  "makeEnv bindings = foldl (\<lambda>m b. m(name b \<mapsto> b)) Map.empty bindings"

text \<open>
  \<open>Object.assign({}, ...environments)\<close>; an \<open>undefined\<close> argument is skipped. An
  environment is the map of its own keys to their bindings. This covers every key but
  \<open>__proto__\<close>: \<open>Object.assign\<close> stores a binding under that key as the prototype of
  the merged object and not as a key, so that the next merge loses it. Environments
  that bind \<open>__proto__\<close> are outside this model.
\<close>

definition mergeEnvs :: "Environment option list \<Rightarrow> Environment" where
  "mergeEnvs environments =
     foldl (\<lambda>m e. case e of None \<Rightarrow> m | Some e' \<Rightarrow> m ++ e') Map.empty environments"

text \<open>
  The \<open>id\<close> property of the expression in a binder position, read through the unchecked
  cast \<open>(name as NameBinding).id\<close>; an absent property gives \<open>undefined\<close>, which as a
  key of an object is the string "undefined".
\<close>

fun id_of :: "Expr \<Rightarrow> string option" where
  "id_of (NameBinding i ty) = Some i"
| "id_of (Var i) = Some i"
| "id_of e = None"

definition binder_id :: "Expr \<Rightarrow> string" where
  "binder_id e = (case id_of e of Some i \<Rightarrow> i | None \<Rightarrow> ''undefined'')"

text \<open>
  Modelled from the spec: \<open>valueAsBool\<close>, \<open>getVariadic\<close> and \<open>listValueAsVector\<close> of
  \<open>evaluator/value\<close> and \<open>checkCallAgainstTypeSignature\<close> of \<open>evaluator/dynamic-type\<close>
  are not among the sources. Only an explicit boolean false is falsy. The variadic
  arguments are the arguments from a position on. A list value is a vector when it is a
  proper list. A call needs exactly as many arguments as the signature has parameters,
  or at least as many as it has fixed parameters when its last parameter is variadic;
  an argument whose parameter declares a type must carry that tag.
\<close>

fun valueAsBool :: "Value \<Rightarrow> bool" where
  "valueAsBool (VBool b) = b"
| "valueAsBool v = True"

definition getVariadic :: "nat \<Rightarrow> Value list \<Rightarrow> Value list" where
  "getVariadic i args = drop i args"

fun listValueAsVector :: "Value \<Rightarrow> Value list option" where
  "listValueAsVector (VList heads None) = Some heads"
| "listValueAsVector (VList heads (Some t)) =
     (case listValueAsVector t of None \<Rightarrow> None | Some ts \<Rightarrow> Some (heads @ ts))"
| "listValueAsVector v = None"

fun valueTag :: "Value \<Rightarrow> string" where
  "valueTag (VNumber n) = ''Number''"
| "valueTag (VBool b) = ''Boolean''"
| "valueTag (VString x) = ''String''"
| "valueTag (VSymbol x) = ''Symbol''"
| "valueTag VHole = ''Hole''"
| "valueTag (VList heads t) = ''List''"
| "valueTag (VFn sg body e) = ''Function''"

definition isVariadicSignature :: "Param list \<Rightarrow> bool" where
  "isVariadicSignature sg = (sg \<noteq> [] \<and> variadic (last sg))"

definition fixedParamCount :: "Param list \<Rightarrow> nat" where
  "fixedParamCount sg = (if isVariadicSignature sg then length sg - 1 else length sg)"

definition paramForArg :: "Param list \<Rightarrow> nat \<Rightarrow> Param" where
  "paramForArg sg i = (if i < length sg then sg ! i else last sg)"

definition checkCallAgainstTypeSignature :: "Value list \<Rightarrow> Param list \<Rightarrow> error option" where
  "checkCallAgainstTypeSignature args sg =
     (if isVariadicSignature sg \<and> length args < fixedParamCount sg then Some ArityMismatch
      else if \<not> isVariadicSignature sg \<and> length args \<noteq> length sg then Some ArityMismatch
      else if list_ex (\<lambda>i. case ptype (paramForArg sg i) of
                              None \<Rightarrow> False
                            | Some t \<Rightarrow> valueTag (args ! i) \<noteq> t) [0..<length args]
           then Some TypeMismatch
      else None)"

text \<open>
  Modelled from the spec: \<open>Defines.add\<close> (see \<open>DefEntry\<close>) registers a producer for a
  name and replaces whatever was registered for it; the last registration wins.
\<close>

definition definesAdd :: "string \<Rightarrow> Expr \<Rightarrow> EvalState \<Rightarrow> EvalState" where
  "definesAdd x e s = s\<lparr>defs := (defs s)(x \<mapsto> Producer e)\<rparr>"

text \<open>Loops over a list with state and exceptions: \<open>map\<close> and \<open>forEach\<close> with a callback.\<close>

fun mapM_state ::
  "('a \<Rightarrow> 's \<Rightarrow> (error + 'b) \<times> 's) \<Rightarrow> 'a list \<Rightarrow> 's \<Rightarrow> (error + 'b list) \<times> 's" where
  "mapM_state f [] s = (Inr [], s)"
| "mapM_state f (x # xs) s =
     (case f x s of
        (Inl e, s1) \<Rightarrow> (Inl e, s1)
      | (Inr y, s1) \<Rightarrow>
          (case mapM_state f xs s1 of
             (Inl e, s2) \<Rightarrow> (Inl e, s2)
           | (Inr ys, s2) \<Rightarrow> (Inr (y # ys), s2)))"

fun foldM_state ::
  "('b \<Rightarrow> 'a \<Rightarrow> 's \<Rightarrow> (error + 'b) \<times> 's) \<Rightarrow> 'b \<Rightarrow> 'a list \<Rightarrow> 's \<Rightarrow> (error + 'b) \<times> 's" where
  "foldM_state f acc [] s = (Inr acc, s)"
| "foldM_state f acc (x # xs) s =
     (case f acc x s of
        (Inl e, s1) \<Rightarrow> (Inl e, s1)
      | (Inr acc1, s1) \<Rightarrow> foldM_state f acc1 xs s1)"


section \<open>Evaluator (evaluator/evaluate.ts)\<close>

text \<open>The first loop of \<open>letrec\<close>: one binding with an empty cell per binding name.\<close>

fun allocEmptyBindings :: "Expr list \<Rightarrow> EvalState \<Rightarrow> Binding list \<times> EvalState" where
  "allocEmptyBindings [] s = ([], s)"
| "allocEmptyBindings (nm # nms) s =
     (case allocCell None s of
        (c, s1) \<Rightarrow>
          (case allocEmptyBindings nms s1 of
             (bs, s2) \<Rightarrow> (\<lparr>name = binder_id nm, cell = c\<rparr> # bs, s2)))"

text \<open>
  The loop of \<open>call\<close>: while there is both a parameter and an argument at position
  \<open>i\<close>, the call environment is extended by a binding of that parameter's name to a
  new cell holding that argument.
\<close>

fun bindParams :: "Param list \<Rightarrow> Value list \<Rightarrow> Environment \<Rightarrow> EvalState \<Rightarrow> Environment \<times> EvalState" where
  "bindParams (p # ps) (v # vs) callEnv s =
     (case allocCell (Some v) s of
        (c, s1) \<Rightarrow>
          bindParams ps vs
            (mergeEnvs [Some callEnv, Some [pname p \<mapsto> \<lparr>name = pname p, cell = c\<rparr>]]) s1)"
| "bindParams ps vs callEnv s = (callEnv, s)"

text \<open>
  \<open>#eval\<close> is \<open>eval_private\<close>, \<open>#eval_\<close> is \<open>eval_cases\<close>, \<open>#get\<close> is \<open>get_private\<close>.
  The methods call each other, and evaluation need not end. Each method is written
  first as its body, with the methods it calls as parameters (\<open>ev\<close> for \<open>this.#eval\<close>,
  \<open>evc\<close> for \<open>this.#eval_\<close>, \<open>cl\<close> for \<open>this.call\<close> or \<open>evaluator.call\<close>, \<open>cn\<close> for
  the invocation of a builtin body, \<open>gt\<close> for \<open>this.#get\<close>, \<open>dg\<close> for
  \<open>this.defines.get\<close>); the recursive definition below then closes the knot with fuel.
  An exception leaves the state as it was when it was thrown: nothing in the source
  catches it.
\<close>

type_synonym 'a result = "(error + 'a) \<times> EvalState"

definition eval_private_body ::
    "(Expr \<Rightarrow> EvalState \<Rightarrow> Value result)
       \<Rightarrow> Expr \<Rightarrow> Environment option \<Rightarrow> Environment option \<Rightarrow> EvalState \<Rightarrow> Value result" where
  "eval_private_body evc expr envArg extendEnv s =
     (let prevEnv = env s;
          s1 = (case envArg of
                  None \<Rightarrow> s
                | Some e \<Rightarrow> s\<lparr>env := Some (mergeEnvs [Some (baseEnv s), Some e])\<rparr>);
          s2 = (case extendEnv of
                  None \<Rightarrow> s1
                | Some x \<Rightarrow> s1\<lparr>env := Some (mergeEnvs [env s1, Some x])\<rparr>)
      in case evc expr s2 of
           (Inl e, s3) \<Rightarrow> (Inl e, s3)
         | (Inr result, s3) \<Rightarrow> (Inr result, s3\<lparr>env := prevEnv\<rparr>))"

definition eval_var ::
    "(string \<Rightarrow> EvalState \<Rightarrow> addr option result) \<Rightarrow> string \<Rightarrow> EvalState \<Rightarrow> Value result" where
  "eval_var gt x s =
     (case gt x s of
        (Inl e, s1) \<Rightarrow> (Inl e, s1)
      | (Inr None, s1) \<Rightarrow> (Inl (UnboundVariable x), s1)
      | (Inr (Some c), s1) \<Rightarrow>
          (case cellValue s1 c of
             None \<Rightarrow> (Inl (UnboundVariable x), s1)
           | Some v \<Rightarrow> (Inr v, s1)))"

definition eval_call ::
    "(Expr \<Rightarrow> Environment option \<Rightarrow> Environment option \<Rightarrow> EvalState \<Rightarrow> Value result)
       \<Rightarrow> (Value \<Rightarrow> Value list \<Rightarrow> EvalState \<Rightarrow> Value result)
       \<Rightarrow> Expr \<Rightarrow> Expr list \<Rightarrow> EvalState \<Rightarrow> Value result" where
  "eval_call ev cl called args s =
     (case ev called None None s of
        (Inl e, s1) \<Rightarrow> (Inl e, s1)
      | (Inr calledValue, s1) \<Rightarrow>
          (case calledValue of
             VFn sg body fenv \<Rightarrow>
               (case mapM_state (\<lambda>arg st. ev arg None None st) args s1 of
                  (Inl e, s2) \<Rightarrow> (Inl e, s2)
                | (Inr argValues, s2) \<Rightarrow> cl calledValue argValues s2)
           | _ \<Rightarrow> (Inl NotCallable, s1)))"

definition eval_define :: "Expr \<Rightarrow> Expr \<Rightarrow> EvalState \<Rightarrow> Value result" where
  "eval_define nm val s =
     (case nm of
        NameBinding i ty \<Rightarrow> (Inr (VList [] None), definesAdd i val s)
      | _ \<Rightarrow> (Inl DefineNeedsName, s))"

definition eval_let ::
    "(Expr \<Rightarrow> Environment option \<Rightarrow> Environment option \<Rightarrow> EvalState \<Rightarrow> Value result)
       \<Rightarrow> (Expr \<times> Expr) list \<Rightarrow> Expr \<Rightarrow> EvalState \<Rightarrow> Value result" where
  "eval_let ev bindings body s =
     (case mapM_state
             (\<lambda>b st. case ev (snd b) None None st of
                        (Inl e, st1) \<Rightarrow> (Inl e, st1)
                      | (Inr v, st1) \<Rightarrow>
                          (case allocCell (Some v) st1 of
                             (c, st2) \<Rightarrow> (Inr \<lparr>name = binder_id (fst b), cell = c\<rparr>, st2)))
             bindings s of
        (Inl e, s1) \<Rightarrow> (Inl e, s1)
      | (Inr valueBindings, s1) \<Rightarrow> ev body None (Some (makeEnv valueBindings)) s1)"

text \<open>
  \<open>valueBindings\<close> is the object \<open>keyBy(bindings, name)\<close>; its values, keyed by name
  again for the body, are the same object as an environment.
\<close>

definition eval_letrec ::
    "(Expr \<Rightarrow> Environment option \<Rightarrow> Environment option \<Rightarrow> EvalState \<Rightarrow> Value result)
       \<Rightarrow> (Expr \<times> Expr) list \<Rightarrow> Expr \<Rightarrow> EvalState \<Rightarrow> Value result" where
  "eval_letrec ev bindings body s =
     (case allocEmptyBindings (map fst bindings) s of
        (bs, s1) \<Rightarrow>
          (let valueBindings = makeEnv bs in
           case foldM_state
                  (\<lambda>u b st. case ev (snd b) None None st of
                               (Inl e, st1) \<Rightarrow> (Inl e, st1)
                             | (Inr v, st1) \<Rightarrow>
                                 (case valueBindings (binder_id (fst b)) of
                                    None \<Rightarrow> (Inl TypeErrorJS, st1)
                                  | Some vb \<Rightarrow> (Inr (), setCell (cell vb) v st1)))
                  () bindings s1 of
             (Inl e, s2) \<Rightarrow> (Inl e, s2)
           | (Inr u, s2) \<Rightarrow> ev body None (Some valueBindings) s2))"

definition eval_lambda :: "Expr list \<Rightarrow> Expr \<Rightarrow> EvalState \<Rightarrow> Value result" where
  "eval_lambda params body s =
     (Inr (VFn (map (\<lambda>param. Param (binder_id param) None False) params)
               (Interpreted body) (env s)), s)"

definition eval_sequence ::
    "(Expr \<Rightarrow> Environment option \<Rightarrow> Environment option \<Rightarrow> EvalState \<Rightarrow> Value result)
       \<Rightarrow> Expr list \<Rightarrow> EvalState \<Rightarrow> Value result" where
  "eval_sequence ev exprs s =
     foldM_state (\<lambda>result e st. ev e None None st) (VList [] None) exprs s"

definition eval_if ::
    "(Expr \<Rightarrow> Environment option \<Rightarrow> Environment option \<Rightarrow> EvalState \<Rightarrow> Value result)
       \<Rightarrow> Expr \<Rightarrow> Expr \<Rightarrow> Expr \<Rightarrow> EvalState \<Rightarrow> Value result" where
  "eval_if ev c t e s =
     (case ev c None None s of
        (Inl er, s1) \<Rightarrow> (Inl er, s1)
      | (Inr condition, s1) \<Rightarrow> ev (if valueAsBool condition then t else e) None None s1)"

definition eval_cases_body ::
    "(Expr \<Rightarrow> Environment option \<Rightarrow> Environment option \<Rightarrow> EvalState \<Rightarrow> Value result)
       \<Rightarrow> (Value \<Rightarrow> Value list \<Rightarrow> EvalState \<Rightarrow> Value result)
       \<Rightarrow> (string \<Rightarrow> EvalState \<Rightarrow> addr option result)
       \<Rightarrow> Expr \<Rightarrow> EvalState \<Rightarrow> Value result" where
  "eval_cases_body ev cl gt expr s =
     (case expr of
        Lit d \<Rightarrow> if isHoleDatum d then (Inl HoleEvaluated, s) else (Inr (valueOfDatum d), s)
      | Var x \<Rightarrow> eval_var gt x s
      | Call called args \<Rightarrow> eval_call ev cl called args s
      | Define nm val \<Rightarrow> eval_define nm val s
      | Let bindings body \<Rightarrow> eval_let ev bindings body s
      | Letrec bindings body \<Rightarrow> eval_letrec ev bindings body s
      | Lambda params body \<Rightarrow> eval_lambda params body s
      | Sequence exprs \<Rightarrow> eval_sequence ev exprs s
      | If c t e \<Rightarrow> eval_if ev c t e s
      | Cond \<Rightarrow> (Inl NotImplemented, s)
      | NameBinding i ty \<Rightarrow> (Inl NotImplemented, s)
      | TypeExpr ty \<Rightarrow> (Inl NotImplemented, s))"

definition call_body ::
    "(Expr \<Rightarrow> Environment option \<Rightarrow> Environment option \<Rightarrow> EvalState \<Rightarrow> Value result)
       \<Rightarrow> (string \<Rightarrow> Value list \<Rightarrow> EvalState \<Rightarrow> Value result)
       \<Rightarrow> Value \<Rightarrow> Value list \<Rightarrow> EvalState \<Rightarrow> Value result" where
  "call_body ev cn fn args s =
     (case fn of
        VFn sg body fenv \<Rightarrow>
          (case checkCallAgainstTypeSignature args sg of
             Some e \<Rightarrow> (Inl e, s)
           | None \<Rightarrow>
               (case bindParams sg args (case fenv of None \<Rightarrow> Map.empty | Some e \<Rightarrow> e) s of
                  (callEnv, s1) \<Rightarrow>
                    (case body of
                       Native nm \<Rightarrow> cn nm args s1
                     | Interpreted b \<Rightarrow> ev b (Some callEnv) None s1)))
      | _ \<Rightarrow> (Inl TypeErrorJS, s))"

text \<open>
  The builtin bodies of \<open>environments.ts\<close> that use their second argument, the
  evaluator: \<open>apply\<close>, \<open>map\<close> and \<open>for-each\<close>. They only ever call \<open>evaluator.call\<close>.
  Every other builtin body is a function of its arguments alone (\<open>natives\<close>).
\<close>

definition native_apply ::
    "(Value \<Rightarrow> Value list \<Rightarrow> EvalState \<Rightarrow> Value result) \<Rightarrow> Value list \<Rightarrow> EvalState \<Rightarrow> Value result" where
  "native_apply cl args s =
     (case args of
        fn # argList # rest \<Rightarrow>
          (case listValueAsVector argList of
             None \<Rightarrow> (Inl (NativeError ''apply: improper list''), s)
           | Some argv \<Rightarrow> cl fn argv s)
      | _ \<Rightarrow> (Inl TypeErrorJS, s))"

definition native_map ::
    "bool \<Rightarrow> (Value \<Rightarrow> Value list \<Rightarrow> EvalState \<Rightarrow> Value result)
       \<Rightarrow> Value list \<Rightarrow> EvalState \<Rightarrow> Value result" where
  "native_map keep cl args s =
     (let lists = getVariadic 1 args in
      if lists = [] then (Inr (VList [] None), s)
      else case those (map listValueAsVector lists) of
             None \<Rightarrow> (Inl (NativeError ''improper list''), s)
           | Some rows \<Rightarrow>
               (case mapM_state
                       (\<lambda>i st. if list_ex (\<lambda>row. \<not> i < length row) rows
                                then (Inl (NativeError ''different length''), st)
                                else cl (hd args) (map (\<lambda>row. row ! i) rows) st)
                       [0..<length (hd rows)] s of
                  (Inl e, s1) \<Rightarrow> (Inl e, s1)
                | (Inr results, s1) \<Rightarrow> (Inr (VList (if keep then results else []) None), s1)))"

definition callNative_body ::
    "(Value \<Rightarrow> Value list \<Rightarrow> EvalState \<Rightarrow> Value result)
       \<Rightarrow> string \<Rightarrow> Value list \<Rightarrow> EvalState \<Rightarrow> Value result" where
  "callNative_body cl nm args s =
     (if nm = ''apply'' then native_apply cl args s
      else if nm = ''map'' then native_map True cl args s
      else if nm = ''for-each'' then native_map False cl args s
      else (case natives s nm args of
              Inl e \<Rightarrow> (Inl e, s)
            | Inr v \<Rightarrow> (Inr v, s)))"

definition get_private_body ::
    "(string \<Rightarrow> EvalState \<Rightarrow> addr option result) \<Rightarrow> string \<Rightarrow> EvalState \<Rightarrow> addr option result" where
  "get_private_body dg x s =
     (case env s of
        None \<Rightarrow> (Inl TypeErrorJS, s)
      | Some e \<Rightarrow>
          (case e x of
             Some b \<Rightarrow> (Inr (Some (cell b)), s)
           | None \<Rightarrow> dg x s))"

text \<open>
  Modelled from the spec (see \<open>DefEntry\<close>): the first lookup of a name keeps an empty
  cell for it, runs the producer and stores the value in that cell, so that a producer
  looking up its own name meets an unpopulated cell; later lookups return the cell.
\<close>

definition definesGet_body ::
    "(Expr \<Rightarrow> Environment option \<Rightarrow> Environment option \<Rightarrow> EvalState \<Rightarrow> Value result)
       \<Rightarrow> string \<Rightarrow> EvalState \<Rightarrow> addr option result" where
  "definesGet_body ev x s =
     (case defs s x of
        None \<Rightarrow> (Inr None, s)
      | Some (Resolved c) \<Rightarrow> (Inr (Some c), s)
      | Some (Producer e) \<Rightarrow>
          (case allocCell None s of
             (c, s1) \<Rightarrow>
               (case ev e None None (s1\<lparr>defs := (defs s1)(x \<mapsto> Resolved c)\<rparr>) of
                  (Inl er, s2) \<Rightarrow> (Inl er, s2)
                | (Inr v, s2) \<Rightarrow> (Inr (Some c), setCell c v s2))))"

text \<open>
  The knot. Only \<open>#eval\<close> and \<open>call\<close> are entered again from below, so the fuel
  counts the nested entries into these two: each of them runs its body with the two
  of them at one unit less, and a run that was cut off returns \<open>OutOfFuel\<close>.
\<close>

fun eval_private ::
    "nat \<Rightarrow> Expr \<Rightarrow> Environment option \<Rightarrow> Environment option \<Rightarrow> EvalState \<Rightarrow> Value result"
and call :: "nat \<Rightarrow> Value \<Rightarrow> Value list \<Rightarrow> EvalState \<Rightarrow> Value result"
where
  "eval_private 0 expr envArg extendEnv s = (Inl OutOfFuel, s)"
| "eval_private (Suc n) expr envArg extendEnv s =
     eval_private_body
       (eval_cases_body (eval_private n) (call n)
          (get_private_body (definesGet_body (eval_private n))))
       expr envArg extendEnv s"
| "call 0 fn args s = (Inl OutOfFuel, s)"
| "call (Suc n) fn args s =
     call_body (eval_private n) (callNative_body (call n)) fn args s"

text \<open>The other methods, with the fuel left for the entries they make.\<close>

definition definesGet :: "nat \<Rightarrow> string \<Rightarrow> EvalState \<Rightarrow> addr option result" where
  "definesGet n = definesGet_body (eval_private n)"

definition get_private :: "nat \<Rightarrow> string \<Rightarrow> EvalState \<Rightarrow> addr option result" where
  "get_private n = get_private_body (definesGet n)"

definition eval_cases :: "nat \<Rightarrow> Expr \<Rightarrow> EvalState \<Rightarrow> Value result" where
  "eval_cases n = eval_cases_body (eval_private n) (call n) (get_private n)"

definition callNative :: "nat \<Rightarrow> string \<Rightarrow> Value list \<Rightarrow> EvalState \<Rightarrow> Value result" where
  "callNative n = callNative_body (call n)"

text \<open>The public entry point \<open>eval(expr, env = {})\<close>.\<close>

definition eval :: "nat \<Rightarrow> Expr \<Rightarrow> Environment \<Rightarrow> EvalState \<Rightarrow> Value result" where
  "eval n expr e s = eval_private n expr (Some e) None s"


section \<open>Notions used to state the properties\<close>

text \<open>
  The slots (node and index) that the walk along an index path reads, in order. The
  walk to the parent of a location, and the slot of a location in its parent.
\<close>

fun slots_on_path :: "(ref \<Rightarrow> Node) \<Rightarrow> ref \<Rightarrow> nat list \<Rightarrow> (ref \<times> nat) list" where
  "slots_on_path h rt [] = []"
| "slots_on_path h rt (index # indexPath) =
     (rt, index) # (case childAtIndex h rt index of
                      Inl e \<Rightarrow> []
                    | Inr c \<Rightarrow> slots_on_path h c indexPath)"

definition parent_walk :: "Forest \<Rightarrow> TreeIndexPath \<Rightarrow> (ref \<times> nat) list" where
  "parent_walk s loc = slots_on_path (heap s) (root (tree loc)) (butlast (path loc))"

definition slot_of :: "Forest \<Rightarrow> TreeIndexPath \<Rightarrow> (ref \<times> nat) list" where
  "slot_of s loc =
     (if path loc = [] then []
      else case exprForIndexPathInTree s (tree loc) (butlast (path loc)) of
             Inl e \<Rightarrow> []
           | Inr parent \<Rightarrow> [(parent, last (path loc))])"

text \<open>
  Two locations are apart when the walk to the parent of either of them reads neither
  location's own slot. In a forest of trees this says that neither node lies inside
  the other.
\<close>

definition apart :: "Forest \<Rightarrow> TreeIndexPath \<Rightarrow> TreeIndexPath \<Rightarrow> bool" where
  "apart s a b =
     list_all (\<lambda>sl. sl \<notin> set (parent_walk s a) \<and> sl \<notin> set (parent_walk s b))
       (slot_of s a @ slot_of s b)"

text \<open>Two heaps that agree on which nodes are composite and on every slot outside \<open>S\<close>.\<close>

definition agree :: "(ref \<Rightarrow> Node) \<Rightarrow> (ref \<Rightarrow> Node) \<Rightarrow> (ref \<times> nat) set \<Rightarrow> bool" where
  "agree h h' S = ((\<forall>a. isSExpr h' a = isSExpr h a)
                   \<and> (\<forall>a k. (a, k) \<notin> S \<longrightarrow> childAtIndex h' a k = childAtIndex h a k))"

text \<open>
  An example forest of four trees: \<open>(a (b (c (d e))))\<close> with id 1, \<open>(g (h _))\<close>
  with id 2, whose last slot is empty, an empty draft with id 3, whose root is the
  hole, and the atom \<open>k\<close> with id 4.
\<close>

definition ex_heap :: "ref \<Rightarrow> Node" where
  "ex_heap = (\<lambda>r. Hole)
     (14 := SExpr [2, 3], 2 := Atom ''a'',
      3 := SExpr [4, 5], 4 := Atom ''b'',
      5 := SExpr [6, 7], 6 := Atom ''c'',
      7 := SExpr [8, 9], 8 := Atom ''d'', 9 := Atom ''e'',
      10 := SExpr [11, 12], 11 := Atom ''g'',
      12 := SExpr [13, 0], 13 := Atom ''h'', 15 := Atom ''k'')"

definition ex_tree1 :: Tree where
  "ex_tree1 = \<lparr>tree_id = ''1'', root = 14, location = None\<rparr>"

definition ex_tree2 :: Tree where
  "ex_tree2 = \<lparr>tree_id = ''2'', root = 10, location = None\<rparr>"

definition ex_tree3 :: Tree where
  "ex_tree3 = \<lparr>tree_id = ''3'', root = hole, location = None\<rparr>"

definition ex_tree4 :: Tree where
  "ex_tree4 = \<lparr>tree_id = ''4'', root = 15, location = None\<rparr>"

definition ex_forest :: Forest where
  "ex_forest = \<lparr>heap = ex_heap, nextRef = 16,
                trees_store = [ex_tree1, ex_tree2, ex_tree3, ex_tree4], nextID = 4\<rparr>"

text \<open>
  An evaluator as the constructor leaves it, with an empty base environment, no global
  definitions and no cells; the expression \<open>(letrec ((f (lambda () g)) (g 1)) (f))\<close>,
  whose first binding refers to the second inside a lambda body only; and a closure
  \<open>(x . rest)\<close> with a variadic last parameter whose body is \<open>rest\<close>.
\<close>

definition ex_state :: EvalState where
  "ex_state = \<lparr>baseEnv = Map.empty, env = None, defs = Map.empty, cells = [],
               natives = (\<lambda>nm args. Inl NotImplemented)\<rparr>"

definition ex_letrec :: Expr where
  "ex_letrec =
     Letrec [(NameBinding ''f'' None, Lambda [] (Var ''g'')),
             (NameBinding ''g'' None, Lit (DNumber 1))]
       (Call (Var ''f'') [])"

definition ex_variadic :: Value where
  "ex_variadic =
     VFn [Param ''x'' None False, Param ''rest'' None True] (Interpreted (Var ''rest'')) None"

text \<open>
  An evaluator in the middle of an evaluation: \<open>x\<close> is bound lexically to a populated
  cell and \<open>y\<close> to an empty one, and the global definitions hold a populated cell for
  \<open>y\<close> and for \<open>z\<close>.
\<close>

definition ex_lookup_state :: EvalState where
  "ex_lookup_state =
     \<lparr>baseEnv = Map.empty,
      env = Some [''x'' \<mapsto> \<lparr>name = ''x'', cell = 0\<rparr>, ''y'' \<mapsto> \<lparr>name = ''y'', cell = 1\<rparr>],
      defs = [''y'' \<mapsto> Resolved 2, ''z'' \<mapsto> Resolved 2],
      cells = [Some (VNumber 42), None, Some (VNumber 5)],
      natives = (\<lambda>nm args. Inl NotImplemented)\<rparr>"

text \<open>The expression \<open>(let ((k 1)) k)\<close>.\<close>

definition ex_let :: Expr where
  "ex_let = Let [(NameBinding ''k'' None, Lit (DNumber 1))] (Var ''k'')"

text \<open>
  An evaluator whose base environment holds the builtin \<open>map\<close>, with the signature it
  has in the initial environment.
\<close>

definition ex_map_state :: EvalState where
  "ex_map_state =
     \<lparr>baseEnv = [''map'' \<mapsto> \<lparr>name = ''map'', cell = 0\<rparr>], env = None, defs = Map.empty,
      cells = [Some (VFn [Param ''function'' (Some ''Function'') False,
                          Param ''lists'' (Some ''List'') True] (Native ''map'') None)],
      natives = (\<lambda>nm args. Inl NotImplemented)\<rparr>"

section \<open>Properties of the type system\<close>

lemma isTypeVarBoundBy_slots: "list_all isTypeVarSlot slots \<Longrightarrow> \<not> isTypeVarBoundBy x slots"
proof -
  have "\<not> (isTypeVar t \<and> var_of t = Some x)" if "isTypeVarSlot t" for t
    using that by (cases t) (auto simp: isTypeVarSlot_def)
  then show "list_all isTypeVarSlot slots \<Longrightarrow> \<not> isTypeVarBoundBy x slots"
    by (auto simp: isTypeVarBoundBy_def list_ex_iff list_all_iff)
qed

text \<open>
  Claim C2. \<open>typeSubstitute\<close> is claimed to leave alone every occurrence of a type
  variable that an enclosing \<open>ForallType\<close> binds, so that substituting \<open>{a: Number}\<close>
  into \<open>Forall([a], TypeVar("a"))\<close> leaves the body \<open>TypeVar("a")\<close> unchanged. The
  function passes the whole substitution into the body of a quantifier: at this input
  the bound occurrence is replaced by \<open>Number\<close>.
\<close>

theorem typeSubstitute_enters_binder:
  "typeSubstitute (ForallType [Slot (TypeNameBinding ''a'')] (TypeVar ''a''))
       [''a'' \<mapsto> ConcreteType ''Number'' None None None]
     = ForallType [Slot (TypeNameBinding ''a'')] (ConcreteType ''Number'' None None None)"
  by simp

text \<open>The parts of the claim that hold: a free variable, a slot, the list of a quantifier.\<close>

lemma typeSubstitute_free_and_slots:
  "typeSubstitute (TypeVar ''a'') [''a'' \<mapsto> ConcreteType ''Number'' None None None]
     = ConcreteType ''Number'' None None None"
  "sub v = Some t \<Longrightarrow> typeSubstitute (TypeVar v) sub = t"
  "sub v = None \<Longrightarrow> typeSubstitute (TypeVar v) sub = TypeVar v"
  "typeSubstitute (Slot sl) sub = Slot sl"
  "\<exists>b'. typeSubstitute (ForallType slots b) sub = ForallType slots b'"
  by simp_all

text \<open>
  Claim C3. \<open>typeVarOccurs\<close> is claimed to treat a name rebound by an enclosing
  \<open>ForallType\<close> as shadowed, so that \<open>typeVarOccurs("a", Forall([a], TypeVar("a")))\<close> is
  false. The test \<open>isTypeVarBoundBy\<close> asks each slot of the quantifier for a \<open>var\<close>
  property, which no \<open>TypeVarSlot\<close> has (\<open>isTypeVarBoundBy_slots\<close>): for a quantifier
  that holds slots, as declared, the branch marked "Shadowed" is never taken, and at
  this input the answer is true.
\<close>

theorem typeVarOccurs_ignores_binder:
  "conforms (ForallType [Slot (TypeNameBinding ''a'')] (TypeVar ''a''))
   \<and> typeVarOccurs ''a'' (ForallType [Slot (TypeNameBinding ''a'')] (TypeVar ''a'')) = Inr True"
  by (simp add: isTypeVarBoundBy_def isTypeVarSlot_def)

text \<open>
  The test answers as the claim says only for a quantifier whose list holds type
  variables themselves, which the declaration of \<open>ForallType\<close> excludes.
\<close>

lemma typeVarOccurs_shadowed_by_TypeVar:
  "\<not> conforms (ForallType [TypeVar ''a''] (TypeVar ''a''))
   \<and> typeVarOccurs ''a'' (ForallType [TypeVar ''a''] (TypeVar ''a'')) = Inr False"
  by (simp add: isTypeVarBoundBy_def isTypeVarSlot_def)

text \<open>
  A second case that the function misses: a name slot that is a binding is a type as
  declared, but only the name hole is answered, and a binding slot reached anywhere
  before an occurrence is found ends the search with an exception.
\<close>

lemma typeVarOccurs_throws_on_binding_slot:
  "conforms (ConcreteType ''List'' (Some [Slot (TypeNameBinding ''b''), TypeVar ''a'']) None None)
   \<and> typeVarOccurs ''a''
         (ConcreteType ''List'' (Some [Slot (TypeNameBinding ''b''), TypeVar ''a'']) None None)
       = Inl InvalidTypePassed"
  by simp

section \<open>Properties of the forest\<close>

lemma digit_char_inj: "d < 10 \<Longrightarrow> e < 10 \<Longrightarrow> digit_char d = digit_char e \<Longrightarrow> d = e"
proof -
  assume d: "d < 10" and e: "e < 10" and eq: "digit_char d = digit_char e"
  have "distinct ''0123456789''" by simp
  moreover have "d < length ''0123456789''" "e < length ''0123456789''" using d e by simp_all
  ultimately show "d = e" using eq unfolding digit_char_def
    by (simp only: nth_eq_iff_index_eq)
qed

lemma string_of_nat_nonempty: "string_of_nat n \<noteq> []"
  by (subst string_of_nat.simps) simp

lemma string_of_nat_inj: "string_of_nat n = string_of_nat m \<Longrightarrow> n = m"
proof (induction n arbitrary: m rule: less_induct)
  case (less n)
  show ?case
  proof (cases "n < 10")
    case n10: True
    show ?thesis
    proof (cases "m < 10")
      case True
      with n10 less.prems show ?thesis
        by (simp add: string_of_nat.simps[of n] string_of_nat.simps[of m] digit_char_inj)
    next
      case False
      with n10 less.prems string_of_nat_nonempty[of "m div 10"] show ?thesis
        by (simp add: string_of_nat.simps[of n] string_of_nat.simps[of m])
    qed
  next
    case n10: False
    show ?thesis
    proof (cases "m < 10")
      case True
      with n10 less.prems string_of_nat_nonempty[of "n div 10"] show ?thesis
        by (simp add: string_of_nat.simps[of n] string_of_nat.simps[of m])
    next
      case False
      with n10 less.prems have pre: "string_of_nat (n div 10) = string_of_nat (m div 10)"
        and dg: "digit_char (n mod 10) = digit_char (m mod 10)"
        by (simp_all add: string_of_nat.simps[of n] string_of_nat.simps[of m])
      from n10 have "n div 10 < n" by simp
      from less.IH[OF this pre] have "n div 10 = m div 10" .
      moreover from dg have "n mod 10 = m mod 10" by (simp add: digit_char_inj)
      ultimately show ?thesis by (metis div_mult_mod_eq)
    qed
  qed
qed

lemma distinct_decimals: "distinct xs \<Longrightarrow> distinct (map string_of_nat xs)"
  by (simp add: distinct_map inj_on_def) (blast dest: string_of_nat_inj)

text \<open>
  The invariant of a session: the trees created so far carry the numerals of
  \<open>1, ..., nextID\<close> in this order, and the forest holds some of them, no id twice.
\<close>

lemma run_ops_invariant:
  "run_ops ops (created, s) = (created', s') \<Longrightarrow>
   map tree_id created = map string_of_nat [1..<Suc (nextID s)] \<Longrightarrow>
   set (trees_store s) \<subseteq> set created \<Longrightarrow>
   distinct (map tree_id (trees_store s)) \<Longrightarrow>
   map tree_id created' = map string_of_nat [1..<Suc (nextID s')]
   \<and> set (trees_store s') \<subseteq> set created'
   \<and> distinct (map tree_id (trees_store s'))"
proof (induction ops arbitrary: created s)
  case Nil
  then show ?case by simp
next
  case (Cons op ops)
  show ?case
  proof (cases op)
    case (NewTree rt loc)
    define t where "t = \<lparr>tree_id = string_of_nat (Suc (nextID s)), root = rt, location = loc\<rparr>"
    define s1 where "s1 = s\<lparr>nextID := Suc (nextID s), trees_store := trees_store s @ [t]\<rparr>"
    have nt: "newTree rt loc s = (t, s1)"
      by (simp add: newTree_def t_def s1_def Let_def)
    with Cons.prems(1) NewTree have run: "run_ops ops (created @ [t], s1) = (created', s')"
      by simp
    have ids: "map tree_id (created @ [t]) = map string_of_nat [1..<Suc (nextID s1)]"
      using Cons.prems(2) by (simp add: t_def s1_def)
    have sub: "set (trees_store s1) \<subseteq> set (created @ [t])"
      using Cons.prems(3) by (auto simp: s1_def)
    have fresh: "tree_id t \<notin> set (map tree_id (trees_store s))"
    proof
      assume "tree_id t \<in> set (map tree_id (trees_store s))"
      with Cons.prems(3) have "tree_id t \<in> set (map tree_id created)" by auto
      with Cons.prems(2) have "tree_id t \<in> string_of_nat ` {1..<Suc (nextID s)}"
        by (simp only: set_map set_upt)
      then obtain k where "k < Suc (nextID s)" and "tree_id t = string_of_nat k"
        by auto
      then show False by (auto simp: t_def dest: string_of_nat_inj)
    qed
    have dist: "distinct (map tree_id (trees_store s1))"
      using Cons.prems(4) fresh by (simp add: s1_def)
    from Cons.IH[OF run ids sub dist] show ?thesis .
  next
    case (RemoveTree tr)
    with Cons.prems(1) have run: "run_ops ops (created, removeTree tr s) = (created', s')"
      by simp
    have ids: "map tree_id created = map string_of_nat [1..<Suc (nextID (removeTree tr s))]"
      using Cons.prems(2) by (simp add: removeTree_def)
    have sub: "set (trees_store (removeTree tr s)) \<subseteq> set created"
      using Cons.prems(3) by (auto simp: removeTree_def)
    have dist: "distinct (map tree_id (trees_store (removeTree tr s)))"
      using Cons.prems(4) by (simp add: removeTree_def distinct_map_filter)
    from Cons.IH[OF run ids sub dist] show ?thesis .
  qed
qed

text \<open>
  Claim C9. For every sequence of \<open>newTree\<close> and \<open>removeTree\<close> operations from the
  initial empty forest, the ids given to the trees created during the whole session are
  pairwise distinct (so no id is given again after its tree was removed), and the trees
  in the forest have pairwise distinct ids. The counter \<open>nextID\<close> is a natural number
  here; the source's double counts exactly below \<open>2^53\<close>.
\<close>

theorem forest_ids_unique:
  "distinct (map tree_id (fst (run_ops ops ([], initial_forest h r))))
   \<and> distinct (map tree_id (trees_store (snd (run_ops ops ([], initial_forest h r)))))"
proof -
  obtain created s where run: "run_ops ops ([], initial_forest h r) = (created, s)"
    by (cases "run_ops ops ([], initial_forest h r)")
  have "map tree_id created = map string_of_nat [1..<Suc (nextID s)]
        \<and> set (trees_store s) \<subseteq> set created
        \<and> distinct (map tree_id (trees_store s))"
    by (rule run_ops_invariant[OF run]) (simp_all add: initial_forest_def)
  then show ?thesis
    using run by (simp add: distinct_decimals)
qed


section \<open>Properties of the structural mutation\<close>

lemma exprForIndexPath_append:
  "exprForIndexPath h rt (p @ q) =
     (case exprForIndexPath h rt p of Inl e \<Rightarrow> Inl e | Inr c \<Rightarrow> exprForIndexPath h c q)"
  by (induction p arbitrary: rt) (auto split: sum.splits)

lemma exprForIndexPath_parent:
  assumes "exprForIndexPath h rt p = Inr d" and "p \<noteq> []"
  shows "\<exists>par. exprForIndexPath h rt (butlast p) = Inr par \<and> isSExpr h par
               \<and> childAtIndex h par (last p) = Inr d"
proof -
  from assms(2) have p: "p = butlast p @ [last p]" by simp
  from assms(1) have "exprForIndexPath h rt (butlast p @ [last p]) = Inr d"
    using p by simp
  then show ?thesis
    unfolding exprForIndexPath_append
    by (auto split: sum.splits if_splits)
qed

lemma exprForIndexPath_frame:
  "agree h h' S \<Longrightarrow> set (slots_on_path h rt p) \<inter> S = {} \<Longrightarrow>
   exprForIndexPath h' rt p = exprForIndexPath h rt p"
proof (induction p arbitrary: rt)
  case Nil
  then show ?case by simp
next
  case (Cons i p)
  from Cons.prems have here: "childAtIndex h' rt i = childAtIndex h rt i"
    and sx: "isSExpr h' rt = isSExpr h rt"
    by (auto simp: agree_def)
  show ?case
  proof (cases "childAtIndex h rt i")
    case (Inl e)
    with here sx show ?thesis by simp
  next
    case (Inr c)
    with Cons.prems(2) have "set (slots_on_path h c p) \<inter> S = {}" by auto
    from Cons.IH[OF Cons.prems(1) this] Inr here sx show ?thesis by simp
  qed
qed

lemma isSExpr_setChildAtIndex [simp]:
  "isSExpr (heap (setChildAtIndex a i v s)) b = isSExpr (heap s) b"
  by (auto simp: setChildAtIndex_def isSExpr_def split: Node.splits option.splits)

lemma childAtIndex_setChildAtIndex:
  "childAtIndex (heap s) a i = Inr old \<Longrightarrow>
   childAtIndex (heap (setChildAtIndex a (Some i) v s)) b k =
     (if b = a \<and> k = i then Inr v else childAtIndex (heap s) b k)"
  by (auto simp: setChildAtIndex_def childAtIndex_def split: Node.splits if_splits)

lemma childAtIndex_setChildAtIndex_other:
  "(b, k) \<noteq> (a, i) \<Longrightarrow>
   childAtIndex (heap (setChildAtIndex a (Some i) v s)) b k = childAtIndex (heap s) b k"
  by (auto simp: setChildAtIndex_def childAtIndex_def split: Node.splits if_splits)

lemma setChildAtIndex_fields [simp]:
  "trees_store (setChildAtIndex a i v s) = trees_store s"
  "nextID (setChildAtIndex a i v s) = nextID s"
  "nextRef (setChildAtIndex a i v s) = nextRef s"
  by (auto simp: setChildAtIndex_def split: Node.splits option.splits)

lemma agree_setChildAtIndex:
  "agree (heap s) (heap (setChildAtIndex a (Some i) v s)) {(a, i)}"
  by (simp add: agree_def childAtIndex_setChildAtIndex_other)

lemma agree_trans:
  "agree h1 h2 S \<Longrightarrow> agree h2 h3 T \<Longrightarrow> agree h1 h3 (S \<union> T)"
  by (auto simp: agree_def)

lemma agree_refl: "agree h h {}"
  by (simp add: agree_def)

lemma isHole_setChildAtIndex:
  "isHole (heap s) b \<Longrightarrow> isHole (heap (setChildAtIndex a i v s)) b"
  by (auto simp: setChildAtIndex_def isHole_def split: Node.splits option.splits)

lemma at_last_nonempty: "p \<noteq> [] \<Longrightarrow> at_last p = Some (last p)"
  by (simp add: at_last_def)

lemma newTree_fields [simp]:
  "heap (snd (newTree rt loc s)) = heap s"
  "trees_store (snd (newTree rt loc s)) =
     trees_store s @ [\<lparr>tree_id = string_of_nat (nextID s + 1), root = rt, location = loc\<rparr>]"
  by (simp_all add: newTree_def Let_def)

lemma removeTree_fields [simp]:
  "heap (removeTree t s) = heap s"
  "t \<notin> set (trees_store (removeTree t s))"
  by (auto simp: removeTree_def)

lemma resolve_child:
  assumes "exprForIndexPath h rt (butlast p) = Inr par" and "isSExpr h par"
    and "childAtIndex h par (last p) = Inr c" and "p \<noteq> []"
  shows "exprForIndexPath h rt p = Inr c"
proof -
  from assms(4) have "p = butlast p @ [last p]" by simp
  then have "exprForIndexPath h rt p = exprForIndexPath h rt (butlast p @ [last p])" by simp
  also have "\<dots> = Inr c"
    unfolding exprForIndexPath_append using assms(1-3) by simp
  finally show ?thesis .
qed

lemma move_effect:
  assumes src: "exprForIndexPathInTree s (tree src) (path src) = Inr source"
    and dst: "exprForIndexPathInTree s (tree dst) (path dst) = Inr destination"
    and len: "2 \<le> length (path dst)"
    and ne: "destination \<noteq> source" and nr: "destination \<noteq> root (tree dst)"
    and hl: "isHole (heap s) hole"
    and ap: "apart s src dst"
  shows "\<exists>s'. moveExprInTree src dst s = (Inr (), s') \<and> s' \<noteq> s
           \<and> (if source = root (tree src) then tree src \<notin> set (trees s')
               else exprForIndexPathInTree s' (tree src) (path src) = Inr hole
                    \<and> isHole (heap s') hole)
           \<and> exprForIndexPathInTree s' (tree dst) (path dst) = Inr source"
proof -
  let ?h = "heap s"
  let ?j = "last (path dst)"
  from len have pd: "path dst \<noteq> []" by auto
  from exprForIndexPath_parent[OF dst[unfolded exprForIndexPathInTree_def] pd]
  obtain dp where dp: "exprForIndexPath ?h (root (tree dst)) (butlast (path dst)) = Inr dp"
    and dps: "isSExpr ?h dp" and dpc: "childAtIndex ?h dp ?j = Inr destination"
    by blast
  have slot_dst: "slot_of s dst = [(dp, ?j)]"
    using pd dp by (simp add: slot_of_def exprForIndexPathInTree_def)
  from ap slot_dst have d_dst: "(dp, ?j) \<notin> set (parent_walk s dst)"
    and d_src: "(dp, ?j) \<notin> set (parent_walk s src)"
    by (simp_all add: apart_def)
  show ?thesis
  proof (cases "source = root (tree src)")
    case True
    define s2 where "s2 = setChildAtIndex dp (Some ?j) source (removeTree (tree src) s)"
    define s' where "s' = (if \<not> isHole (heap s2) destination
                            then snd (newTree destination None s2) else s2)"
    have mv: "moveExprInTree src dst s = (Inr (), s')"
      using src dst dp dps ne nr len True pd
      by (simp add: moveExprInTree_def Let_def detachSource_def at_last_nonempty
            exprForIndexPathInTree_def s2_def s'_def)
    have hs': "heap s' = heap s2" by (simp add: s'_def)
    have dpc1: "childAtIndex (heap (removeTree (tree src) s)) dp ?j = Inr destination"
      using dpc by simp
    have ag: "agree ?h (heap s2) {(dp, ?j)}"
      using agree_setChildAtIndex[of "removeTree (tree src) s" dp ?j source]
      by (simp add: s2_def)
    have new: "childAtIndex (heap s2) dp ?j = Inr source"
      unfolding s2_def by (simp add: childAtIndex_setChildAtIndex[OF dpc1])
    have "exprForIndexPath (heap s2) (root (tree dst)) (butlast (path dst)) = Inr dp"
      using exprForIndexPath_frame[OF ag, of "root (tree dst)" "butlast (path dst)"] d_dst dp
      by (simp add: parent_walk_def)
    moreover have "isSExpr (heap s2) dp" using dps by (simp add: s2_def)
    ultimately have rd: "exprForIndexPath (heap s2) (root (tree dst)) (path dst) = Inr source"
      using new pd by (rule resolve_child)
    have diff: "s' \<noteq> s"
    proof
      assume "s' = s"
      then have "heap s2 = ?h" using hs' by simp
      with new dpc ne show False by simp
    qed
    have "tree src \<noteq> \<lparr>tree_id = i, root = destination, location = None\<rparr>" for i
    proof
      assume "tree src = \<lparr>tree_id = i, root = destination, location = None\<rparr>"
      then have "root (tree src) = destination" by (metis Tree.select_convs(2))
      with True ne show False by simp
    qed
    then have gone: "tree src \<notin> set (trees s')"
      by (simp add: s'_def s2_def trees_def)
    from mv diff gone rd hs' True show ?thesis
      by (auto simp: exprForIndexPathInTree_def)
  next
    case False
    with src have ps: "path src \<noteq> []"
      by (auto simp: exprForIndexPathInTree_def)
    let ?i = "last (path src)"
    from exprForIndexPath_parent[OF src[unfolded exprForIndexPathInTree_def] ps]
    obtain sp where sp: "exprForIndexPath ?h (root (tree src)) (butlast (path src)) = Inr sp"
      and sps: "isSExpr ?h sp" and spc: "childAtIndex ?h sp ?i = Inr source"
      by blast
    have slot_src: "slot_of s src = [(sp, ?i)]"
      using ps sp by (simp add: slot_of_def exprForIndexPathInTree_def)
    from ap slot_src have s_dst: "(sp, ?i) \<notin> set (parent_walk s dst)"
      and s_src: "(sp, ?i) \<notin> set (parent_walk s src)"
      by (simp_all add: apart_def)
    have slots_ne: "(dp, ?j) \<noteq> (sp, ?i)"
      using dpc spc ne by auto
    define s1 where "s1 = setChildAtIndex sp (Some ?i) hole s"
    define s2 where "s2 = setChildAtIndex dp (Some ?j) source s1"
    define s' where "s' = (if \<not> isHole (heap s2) destination
                            then snd (newTree destination None s2) else s2)"
    have mv: "moveExprInTree src dst s = (Inr (), s')"
      using src dst dp dps ne nr len False pd ps sp sps
      by (simp add: moveExprInTree_def Let_def detachSource_def at_last_nonempty
            exprForIndexPathInTree_def s1_def s2_def s'_def)
    have hs': "heap s' = heap s2" by (simp add: s'_def)
    have "childAtIndex (heap s1) dp ?j = childAtIndex ?h dp ?j"
      unfolding s1_def using slots_ne by (rule childAtIndex_setChildAtIndex_other)
    with dpc have dpc1: "childAtIndex (heap s1) dp ?j = Inr destination" by simp
    have new: "childAtIndex (heap s2) dp ?j = Inr source"
      unfolding s2_def by (simp add: childAtIndex_setChildAtIndex[OF dpc1])
    have "(sp, ?i) \<noteq> (dp, ?j)" using slots_ne by auto
    then have "childAtIndex (heap s2) sp ?i = childAtIndex (heap s1) sp ?i"
      unfolding s2_def by (rule childAtIndex_setChildAtIndex_other)
    also have "\<dots> = Inr hole"
      unfolding s1_def by (simp add: childAtIndex_setChildAtIndex[OF spc])
    finally have old: "childAtIndex (heap s2) sp ?i = Inr hole" .
    have ag: "agree ?h (heap s2) ({(sp, ?i)} \<union> {(dp, ?j)})"
      unfolding s2_def s1_def
      by (rule agree_trans[OF agree_setChildAtIndex agree_setChildAtIndex])
    have "exprForIndexPath (heap s2) (root (tree dst)) (butlast (path dst)) = Inr dp"
      using exprForIndexPath_frame[OF ag, of "root (tree dst)" "butlast (path dst)"]
        d_dst s_dst dp
      by (simp add: parent_walk_def)
    moreover have "isSExpr (heap s2) dp" using dps by (simp add: s2_def s1_def)
    ultimately have rd: "exprForIndexPath (heap s2) (root (tree dst)) (path dst) = Inr source"
      using new pd by (rule resolve_child)
    have "exprForIndexPath (heap s2) (root (tree src)) (butlast (path src)) = Inr sp"
      using exprForIndexPath_frame[OF ag, of "root (tree src)" "butlast (path src)"]
        d_src s_src sp
      by (simp add: parent_walk_def)
    moreover have "isSExpr (heap s2) sp" using sps by (simp add: s2_def s1_def)
    ultimately have rs: "exprForIndexPath (heap s2) (root (tree src)) (path src) = Inr hole"
      using old ps by (rule resolve_child)
    have hole': "isHole (heap s2) hole"
      unfolding s2_def s1_def using hl by (intro isHole_setChildAtIndex)
    have diff: "s' \<noteq> s"
    proof
      assume "s' = s"
      then have "heap s2 = ?h" using hs' by simp
      with new dpc ne show False by simp
    qed
    from mv diff rd rs hs' hole' False show ?thesis
      by (auto simp: exprForIndexPathInTree_def)
  qed
qed

lemma move_noop_root_path: "path dst = [] \<Longrightarrow> moveExprInTree src dst s = (Inr (), s)"
  by (simp add: moveExprInTree_def Let_def)

text \<open>
  The guard of both functions is \<open>destinationIndexPath.length < 2\<close>: a destination that
  is a direct child of its root is refused like the root itself.
\<close>

lemma short_destination_path_noop:
  "length (path dst) < 2 \<Longrightarrow> moveExprInTree src dst s = (Inr (), s)"
  "length (path dst) < 2 \<Longrightarrow> copyExprInTree src dst s = (Inr (), s)"
  by (simp_all add: moveExprInTree_def copyExprInTree_def Let_def)

lemma move_noop_same:
  assumes src: "exprForIndexPathInTree s (tree src) (path src) = Inr source"
    and dst: "exprForIndexPathInTree s (tree dst) (path dst) = Inr destination"
    and same: "destination = source \<or> destination = root (tree dst)"
  shows "moveExprInTree src dst s = (Inr (), s)"
proof (cases "length (path dst) < 2")
  case True
  then show ?thesis by (simp add: moveExprInTree_def Let_def)
next
  case False
  then have pd: "path dst \<noteq> []" by auto
  from exprForIndexPath_parent[OF dst[unfolded exprForIndexPathInTree_def] pd]
  obtain dp where "exprForIndexPath (heap s) (root (tree dst)) (butlast (path dst)) = Inr dp"
    and "isSExpr (heap s) dp"
    by blast
  with src dst same False show ?thesis
    by (auto simp: moveExprInTree_def Let_def exprForIndexPathInTree_def)
qed

text \<open>\<open>moveExprInTree\<close> changes nothing when it throws.\<close>

lemma move_atomic_on_error:
  "fst (moveExprInTree src dst s) = Inl e \<Longrightarrow> snd (moveExprInTree src dst s) = s"
  by (auto simp: moveExprInTree_def Let_def split: sum.splits if_splits)

lemma ex_heap_at [simp]:
  "ex_heap 0 = Hole" "ex_heap 14 = SExpr [2, 3]" "ex_heap 2 = Atom ''a''"
  "ex_heap 3 = SExpr [4, 5]" "ex_heap 4 = Atom ''b''"
  "ex_heap 5 = SExpr [6, 7]" "ex_heap 6 = Atom ''c''"
  "ex_heap 7 = SExpr [8, 9]" "ex_heap 8 = Atom ''d''" "ex_heap 9 = Atom ''e''"
  "ex_heap 10 = SExpr [11, 12]" "ex_heap 11 = Atom ''g''"
  "ex_heap 12 = SExpr [13, 0]" "ex_heap 13 = Atom ''h''" "ex_heap 15 = Atom ''k''"
  by (simp_all add: ex_heap_def)

lemmas mutate_defs =
  moveExprInTree_def copyExprInTree_def orphanExpr_def detachSource_def
  exprForIndexPathInTree_def isSExpr_def isHole_def childAtIndex_def setChildAtIndex_def
  at_last_def newTree_def removeTree_def trees_def Let_def

lemmas ex_defs = ex_forest_def ex_tree1_def ex_tree2_def ex_tree3_def ex_tree4_def hole_def

lemma isHole_setChildAtIndex_iff:
  "isHole (heap (setChildAtIndex a i v s)) b = isHole (heap s) b"
  by (auto simp: setChildAtIndex_def isHole_def split: Node.splits option.splits if_splits)

text \<open>
  \<open>orphanExpr\<close> away from the root does what is claimed: the slot in the parent holds
  the hole afterwards, and a node that is not a hole is a new tree of the forest.
\<close>

lemma orphanExpr_non_root:
  assumes ne: "path loc \<noteq> []"
    and res: "exprForIndexPathInTree s (tree loc) (path loc) = Inr expr"
  shows "\<exists>par s'. exprForIndexPathInTree s (tree loc) (butlast (path loc)) = Inr par
           \<and> orphanExpr loc s = (Inr (), s')
           \<and> childAtIndex (heap s') par (last (path loc)) = Inr hole
           \<and> trees_store s' =
               (if isHole (heap s) expr then trees_store s
                else trees_store s @
                       [\<lparr>tree_id = string_of_nat (nextID s + 1), root = expr, location = None\<rparr>])"
proof -
  from exprForIndexPath_parent[OF res[unfolded exprForIndexPathInTree_def] ne]
  obtain par where par: "exprForIndexPath (heap s) (root (tree loc)) (butlast (path loc)) = Inr par"
    and ps: "isSExpr (heap s) par"
    and pc: "childAtIndex (heap s) par (last (path loc)) = Inr expr"
    by blast
  define s1 where "s1 = setChildAtIndex par (Some (last (path loc))) hole s"
  define s' where "s' = (if \<not> isHole (heap s1) expr then snd (newTree expr None s1) else s1)"
  have run: "orphanExpr loc s = (Inr (), s')"
    using res par ps ne
    by (simp add: orphanExpr_def exprForIndexPathInTree_def at_last_nonempty s1_def s'_def Let_def)
  have slot: "childAtIndex (heap s') par (last (path loc)) = Inr hole"
    by (simp add: s'_def s1_def childAtIndex_setChildAtIndex[OF pc])
  have hl: "isHole (heap s1) expr = isHole (heap s) expr"
    by (simp add: s1_def isHole_setChildAtIndex_iff)
  have ts: "trees_store s' =
               (if isHole (heap s) expr then trees_store s
                else trees_store s @
                       [\<lparr>tree_id = string_of_nat (nextID s + 1), root = expr, location = None\<rparr>])"
    by (simp add: s'_def hl) (simp add: s1_def)
  from par run slot ts show ?thesis
    by (auto simp: exprForIndexPathInTree_def)
qed

text \<open>
  Claim C6. \<open>orphanExpr\<close> is claimed to leave the forest unchanged for every location
  that is a tree root (empty index path). The test that the comment reads as "expr is
  already the root of a tree" asks whether the parent is composite, and for the empty
  path the parent resolves to the root itself: a composite root passes the test, no
  slot is written, and the root is added to the forest a second time as a new tree.
\<close>

theorem orphanExpr_root_not_noop:
  "orphanExpr \<lparr>tree = ex_tree1, path = []\<rparr> ex_forest =
     (Inr (), ex_forest\<lparr>nextID := 5,
        trees_store := [ex_tree1, ex_tree2, ex_tree3, ex_tree4,
                        \<lparr>tree_id = ''5'', root = root ex_tree1, location = None\<rparr>]\<rparr>)"
  by (simp add: mutate_defs ex_defs string_of_nat.simps digit_char_def)

text \<open>
  Claim C4. \<open>copyExprInTree\<close> is claimed to leave the whole forest as it was whenever
  the destination resolves to the source node or to the destination tree's root, or a
  location fails to resolve. The function takes the source out of its place before it
  resolves the destination: with a destination path that does not resolve, the source
  slot already holds the hole when InvalidPath is thrown.
\<close>

theorem copyExprInTree_not_atomic:
  "copyExprInTree \<lparr>tree = ex_tree1, path = [1, 1, 1]\<rparr> \<lparr>tree = ex_tree2, path = [0, 0]\<rparr>
       ex_forest
     = (Inl InvalidPath, ex_forest\<lparr>heap := ex_heap(5 := SExpr [6, hole])\<rparr>)
   \<and> heap (ex_forest\<lparr>heap := ex_heap(5 := SExpr [6, hole])\<rparr>) 5 \<noteq> heap ex_forest 5"
  by (simp add: mutate_defs ex_defs)

text \<open>
  The same for a destination that is the source node: copying the empty draft (a root
  that is the hole) onto an empty slot removes the draft's tree and then returns.
  \<open>moveExprInTree\<close>, which checks before it writes, changes nothing at either input.
\<close>

lemma copyExprInTree_same_node_removes_tree:
  "exprForIndexPathInTree ex_forest ex_tree3 [] = Inr hole
   \<and> exprForIndexPathInTree ex_forest ex_tree2 [1, 1] = Inr hole
   \<and> copyExprInTree \<lparr>tree = ex_tree3, path = []\<rparr> \<lparr>tree = ex_tree2, path = [1, 1]\<rparr>
        ex_forest
      = (Inr (), ex_forest\<lparr>trees_store := [ex_tree1, ex_tree2, ex_tree4]\<rparr>)"
  by (simp add: mutate_defs ex_defs)

lemma moveExprInTree_same_inputs_unchanged:
  "moveExprInTree \<lparr>tree = ex_tree1, path = [1, 1, 1]\<rparr> \<lparr>tree = ex_tree2, path = [0, 0]\<rparr>
       ex_forest = (Inl InvalidPath, ex_forest)
   \<and> moveExprInTree \<lparr>tree = ex_tree3, path = []\<rparr> \<lparr>tree = ex_tree2, path = [1, 1]\<rparr>
        ex_forest = (Inr (), ex_forest)"
  by (simp add: mutate_defs ex_defs)

lemma clone_node_numeral:
  "clone_node (numeral k) r cs =
     (case memo cs r of
        Some r' \<Rightarrow> Some (r', cs)
      | None \<Rightarrow>
          (let r' = cnext cs;
               cs1 = cs\<lparr>memo := (memo cs)(r \<mapsto> r'), cnext := Suc r'\<rparr>
           in case cheap cs r of
                SExpr children \<Rightarrow>
                  (case clone_children (pred_numeral k) children cs1 of
                     None \<Rightarrow> None
                   | Some (children', cs2) \<Rightarrow>
                       Some (r', cs2\<lparr>cheap := (cheap cs2)(r' := SExpr children')\<rparr>))
              | node \<Rightarrow> Some (r', cs1\<lparr>cheap := (cheap cs1)(r' := node)\<rparr>)))"
  by (simp add: numeral_eq_Suc)

text \<open>
  A copy that goes through: \<open>(d e)\<close> of the first tree onto the empty slot of the second.
  The source slot is left as a hole and the destination holds a fresh copy of the node.
\<close>

lemma copy_example:
  "copyExprInTree \<lparr>tree = ex_tree1, path = [1, 1, 1]\<rparr> \<lparr>tree = ex_tree2, path = [1, 1]\<rparr>
       ex_forest
     = (Inr (), ex_forest\<lparr>heap := ex_heap(5 := SExpr [6, hole], 17 := Atom ''d'', 18 := Atom ''e'',
                                        16 := SExpr [17, 18], 12 := SExpr [13, 16]),
                          nextRef := 19\<rparr>)"
  by (simp add: mutate_defs ex_defs cloneDeep_def clone_node_numeral del: clone_node.simps)

text \<open>
  Moving a node onto its own ancestor: \<open>(d e)\<close> onto \<open>(c (d e))\<close> in the first example
  tree. The displaced ancestor becomes a tree of its own and takes the emptied slot with
  it, so the source location now names a slot of the moved node itself.
\<close>

lemma move_onto_ancestor:
  "moveExprInTree \<lparr>tree = ex_tree1, path = [1, 1, 1]\<rparr> \<lparr>tree = ex_tree1, path = [1, 1]\<rparr>
       ex_forest =
   (Inr (), ex_forest\<lparr>heap := ex_heap(5 := SExpr [6, hole], 3 := SExpr [4, 7]),
       nextID := 5, trees_store := [ex_tree1, ex_tree2, ex_tree3, ex_tree4,
        \<lparr>tree_id = ''5'', root = 5, location = None\<rparr>]\<rparr>)"
  by (simp add: mutate_defs ex_defs string_of_nat.simps digit_char_def)

text \<open>
  Claim C5, as stated, fails at this input: the destination path has length 2, the
  destination is neither the source node nor the root of its tree, the move happens,
  and afterwards the source tree is still in the forest and the source location
  resolves to the atom \<open>e\<close>, which is not a hole.
\<close>

theorem moveExprInTree_claim_counterexample:
  "length (path \<lparr>tree = ex_tree1, path = [1, 1]\<rparr>) = 2
   \<and> exprForIndexPathInTree ex_forest ex_tree1 [1, 1, 1] = Inr 7
   \<and> exprForIndexPathInTree ex_forest ex_tree1 [1, 1] = Inr 5
   \<and> root ex_tree1 = 14
   \<and> fst (moveExprInTree \<lparr>tree = ex_tree1, path = [1, 1, 1]\<rparr>
             \<lparr>tree = ex_tree1, path = [1, 1]\<rparr> ex_forest) = Inr ()
   \<and> treeByID ''1'' (snd (moveExprInTree \<lparr>tree = ex_tree1, path = [1, 1, 1]\<rparr>
             \<lparr>tree = ex_tree1, path = [1, 1]\<rparr> ex_forest)) = Some ex_tree1
   \<and> exprForIndexPathInTree
         (snd (moveExprInTree \<lparr>tree = ex_tree1, path = [1, 1, 1]\<rparr>
                 \<lparr>tree = ex_tree1, path = [1, 1]\<rparr> ex_forest)) ex_tree1 [1, 1, 1] = Inr 9
   \<and> \<not> isHole
         (heap (snd (moveExprInTree \<lparr>tree = ex_tree1, path = [1, 1, 1]\<rparr>
                 \<lparr>tree = ex_tree1, path = [1, 1]\<rparr> ex_forest))) 9"
  unfolding move_onto_ancestor
  by (simp add: exprForIndexPathInTree_def isSExpr_def isHole_def childAtIndex_def
        treeByID_def ex_defs)

text \<open>
  The other direction, a node moved into its own subtree: the destination location no
  longer resolves afterwards.
\<close>

lemma move_into_descendant:
  "fst (moveExprInTree \<lparr>tree = ex_tree1, path = [1, 1]\<rparr>
             \<lparr>tree = ex_tree1, path = [1, 1, 1]\<rparr> ex_forest) = Inr ()
   \<and> exprForIndexPathInTree
         (snd (moveExprInTree \<lparr>tree = ex_tree1, path = [1, 1]\<rparr>
                 \<lparr>tree = ex_tree1, path = [1, 1, 1]\<rparr> ex_forest)) ex_tree1 [1, 1, 1]
       = Inl InvalidPath"
  by (simp add: mutate_defs ex_defs string_of_nat.simps digit_char_def)

text \<open>
  Claim C5, amended. \<open>moveExprInTree\<close> leaves the forest unchanged when the destination
  path is empty, and when both locations resolve and the destination is the source node
  or the root of the destination tree. When both locations resolve, the destination
  path has at least two indices, the destination is neither of these, the sentinel is
  a hole and the two locations are apart, the move happens and changes the forest:
  afterwards the source tree is not in the forest (when the source was its root) or
  the source location resolves to the hole, and the destination location resolves to
  the original source node. Nothing is said about destination paths of length one.
\<close>

theorem moveExprInTree_amended:
  "(path dst = [] \<longrightarrow> moveExprInTree src dst s = (Inr (), s))
   \<and> (exprForIndexPathInTree s (tree src) (path src) = Inr source
      \<and> exprForIndexPathInTree s (tree dst) (path dst) = Inr destination
      \<and> (destination = source \<or> destination = root (tree dst))
      \<longrightarrow> moveExprInTree src dst s = (Inr (), s))
   \<and> (exprForIndexPathInTree s (tree src) (path src) = Inr source
      \<and> exprForIndexPathInTree s (tree dst) (path dst) = Inr destination
      \<and> 2 \<le> length (path dst) \<and> destination \<noteq> source \<and> destination \<noteq> root (tree dst)
      \<and> isHole (heap s) hole \<and> apart s src dst
      \<longrightarrow> (\<exists>s'. moveExprInTree src dst s = (Inr (), s') \<and> s' \<noteq> s
             \<and> (if source = root (tree src) then tree src \<notin> set (trees s')
                 else exprForIndexPathInTree s' (tree src) (path src) = Inr hole
                      \<and> isHole (heap s') hole)
             \<and> exprForIndexPathInTree s' (tree dst) (path dst) = Inr source))"
  using move_noop_root_path[of dst src s] move_noop_same[of s src source dst destination]
    move_effect[of s src source dst destination]
  by blast

theorem moveExprInTree_amended_witness:
  "moveExprInTree \<lparr>tree = ex_tree1, path = [1]\<rparr> \<lparr>tree = ex_tree2, path = []\<rparr> ex_forest
     = (Inr (), ex_forest)
   \<and> moveExprInTree \<lparr>tree = ex_tree1, path = [1, 1]\<rparr> \<lparr>tree = ex_tree1, path = [1, 1]\<rparr>
        ex_forest = (Inr (), ex_forest)
   \<and> (\<exists>s'. moveExprInTree \<lparr>tree = ex_tree1, path = [1, 1, 1]\<rparr>
               \<lparr>tree = ex_tree2, path = [1, 1]\<rparr> ex_forest = (Inr (), s')
          \<and> s' \<noteq> ex_forest
          \<and> exprForIndexPathInTree s' ex_tree1 [1, 1, 1] = Inr hole
          \<and> isHole (heap s') hole
          \<and> exprForIndexPathInTree s' ex_tree2 [1, 1] = Inr 7)
   \<and> (\<exists>s'. moveExprInTree \<lparr>tree = ex_tree4, path = []\<rparr>
               \<lparr>tree = ex_tree2, path = [1, 1]\<rparr> ex_forest = (Inr (), s')
          \<and> s' \<noteq> ex_forest
          \<and> ex_tree4 \<notin> set (trees s')
          \<and> exprForIndexPathInTree s' ex_tree2 [1, 1] = Inr 15)"
proof -
  have a: "moveExprInTree \<lparr>tree = ex_tree1, path = [1]\<rparr> \<lparr>tree = ex_tree2, path = []\<rparr>
             ex_forest = (Inr (), ex_forest)"
    using moveExprInTree_amended[of "\<lparr>tree = ex_tree2, path = []\<rparr>"
        "\<lparr>tree = ex_tree1, path = [1]\<rparr>" ex_forest]
    by simp
  have r1: "exprForIndexPathInTree ex_forest ex_tree1 [1, 1] = Inr 5"
    and r2: "exprForIndexPathInTree ex_forest ex_tree1 [1, 1, 1] = Inr 7"
    and r3: "exprForIndexPathInTree ex_forest ex_tree2 [1, 1] = Inr 0"
    and r4: "exprForIndexPathInTree ex_forest ex_tree4 [] = Inr 15"
    by (simp_all add: exprForIndexPathInTree_def isSExpr_def childAtIndex_def ex_defs)
  have b: "moveExprInTree \<lparr>tree = ex_tree1, path = [1, 1]\<rparr>
             \<lparr>tree = ex_tree1, path = [1, 1]\<rparr> ex_forest = (Inr (), ex_forest)"
    using moveExprInTree_amended[of "\<lparr>tree = ex_tree1, path = [1, 1]\<rparr>"
        "\<lparr>tree = ex_tree1, path = [1, 1]\<rparr>" ex_forest 5 5] r1
    by simp
  have hl: "isHole (heap ex_forest) hole"
    by (simp add: isHole_def ex_defs)
  have ap1: "apart ex_forest \<lparr>tree = ex_tree1, path = [1, 1, 1]\<rparr>
               \<lparr>tree = ex_tree2, path = [1, 1]\<rparr>"
    by (simp add: apart_def slot_of_def parent_walk_def exprForIndexPathInTree_def
          isSExpr_def childAtIndex_def ex_defs)
  have ap2: "apart ex_forest \<lparr>tree = ex_tree4, path = []\<rparr>
               \<lparr>tree = ex_tree2, path = [1, 1]\<rparr>"
    by (simp add: apart_def slot_of_def parent_walk_def exprForIndexPathInTree_def
          isSExpr_def childAtIndex_def ex_defs)
  have c: "\<exists>s'. moveExprInTree \<lparr>tree = ex_tree1, path = [1, 1, 1]\<rparr>
               \<lparr>tree = ex_tree2, path = [1, 1]\<rparr> ex_forest = (Inr (), s')
          \<and> s' \<noteq> ex_forest
          \<and> exprForIndexPathInTree s' ex_tree1 [1, 1, 1] = Inr hole
          \<and> isHole (heap s') hole
          \<and> exprForIndexPathInTree s' ex_tree2 [1, 1] = Inr 7"
    using moveExprInTree_amended[of "\<lparr>tree = ex_tree2, path = [1, 1]\<rparr>"
        "\<lparr>tree = ex_tree1, path = [1, 1, 1]\<rparr>" ex_forest 7 0] r2 r3 hl ap1
    by (simp add: ex_defs)
  have d: "\<exists>s'. moveExprInTree \<lparr>tree = ex_tree4, path = []\<rparr>
               \<lparr>tree = ex_tree2, path = [1, 1]\<rparr> ex_forest = (Inr (), s')
          \<and> s' \<noteq> ex_forest
          \<and> ex_tree4 \<notin> set (trees s')
          \<and> exprForIndexPathInTree s' ex_tree2 [1, 1] = Inr 15"
    using moveExprInTree_amended[of "\<lparr>tree = ex_tree2, path = [1, 1]\<rparr>"
        "\<lparr>tree = ex_tree4, path = []\<rparr>" ex_forest 15 0] r3 r4 hl ap2
    by (simp add: ex_defs)
  from a b c d show ?thesis by blast
qed


section \<open>Properties of the evaluator\<close>

lemmas eval_defs =
  eval_def eval_private_body_def eval_cases_body_def eval_var_def eval_call_def
  eval_define_def eval_let_def eval_letrec_def eval_lambda_def eval_sequence_def eval_if_def
  call_body_def callNative_body_def native_apply_def native_map_def get_private_body_def
  definesGet_body_def allocCell_def cellValue_def setCell_def makeEnv_def mergeEnvs_def
  binder_id_def isHoleDatum_def checkCallAgainstTypeSignature_def isVariadicSignature_def
  fixedParamCount_def paramForArg_def definesAdd_def getVariadic_def

text \<open>
  Claim C1. \<open>letrec\<close> is claimed to evaluate each binding's value in an environment
  that already exposes the cells of all the bindings, so that bindings which refer to
  each other inside lambda bodies only succeed. The code allocates the cells, but
  evaluates each value with \<open>this.#eval(value)\<close>, in the environment around the
  \<open>letrec\<close>; only the body sees the cells. A closure made by a binding captures the
  outer environment, and when the body calls it, the sibling it names is unbound, with
  any fuel that lets the evaluation finish.
\<close>

theorem letrec_siblings_not_visible:
  "fst (eval (n + 4) ex_letrec Map.empty ex_state) = Inl (UnboundVariable ''g'')"
  by (simp add: eval_nat_numeral eval_defs ex_state_def ex_letrec_def map_add_def)

text \<open>
  For the same reason a direct reference to a sibling reads a binding of that name
  around the \<open>letrec\<close>, when there is one, instead of failing.
\<close>

lemma letrec_reads_outer_binding:
  "fst (eval (n + 4)
          (Let [(NameBinding ''a'' None, Lit (DNumber 7))]
             (Letrec [(NameBinding ''b'' None, Var ''a''), (NameBinding ''a'' None, Lit (DNumber 1))]
                (Var ''b'')))
          Map.empty ex_state) = Inr (VNumber 7)"
  by (simp add: eval_nat_numeral eval_defs ex_state_def map_add_def)

text \<open>
  Claim C7, as stated, fails at this input: a closure \<open>(x . rest)\<close> whose last
  parameter is variadic is called with three arguments, the signature check passes, and
  its body \<open>rest\<close> evaluates to the second argument alone, not to a collection of the
  second and third; only two cells were made, none for the third argument.
\<close>

theorem call_variadic_counterexample:
  "checkCallAgainstTypeSignature [VNumber 1, VNumber 2, VNumber 3]
       [Param ''x'' None False, Param ''rest'' None True] = None
   \<and> call 5 ex_variadic [VNumber 1, VNumber 2, VNumber 3] ex_state
       = (Inr (VNumber 2), ex_state\<lparr>cells := [Some (VNumber 1), Some (VNumber 2)]\<rparr>)"
  by (simp add: eval_nat_numeral eval_defs ex_state_def ex_variadic_def map_add_def)

text \<open>
  Claim C10. Whenever \<open>#eval\<close> returns normally, the field \<open>env\<close> of the evaluator
  holds exactly the value it held before the call; the same for the public \<open>eval\<close>.
\<close>

theorem eval_restores_env:
  "(eval_private n expr envArg extendEnv s = (Inr v, s') \<longrightarrow> env s' = env s)
   \<and> (eval n expr e s = (Inr v, s') \<longrightarrow> env s' = env s)"
proof -
  have "env s' = env s" if "eval_private n expr a x s = (Inr v, s')" for a x
  proof (cases n)
    case 0
    with that show ?thesis by simp
  next
    case (Suc m)
    with that show ?thesis
      by (auto simp: eval_private_body_def Let_def split: prod.splits sum.splits)
  qed
  then show ?thesis by (auto simp: eval_def)
qed

lemma eval_cases_Var: "eval_cases n (Var x) s = eval_var (get_private n) x s"
  by (simp add: eval_cases_def eval_cases_body_def)

text \<open>
  Claim C8. Evaluating \<open>var\<close> looks the name up in the lexical environment first: a
  binding found there decides the result, whatever the global definitions hold, and
  the state is untouched. Only a name absent from the environment is looked up in the
  global definitions. The result is UnboundVariable when no cell is found (the name is
  absent from both) or the cell found is empty, and the value held by the cell
  otherwise; an exception of a producer run by the lookup escapes as it is.
\<close>

theorem eval_var_lookup:
  "env s = Some e \<longrightarrow>
     (\<forall>b. e x = Some b \<longrightarrow>
        eval_cases n (Var x) s =
          (case cellValue s (cell b) of
             Some v \<Rightarrow> (Inr v, s)
           | None \<Rightarrow> (Inl (UnboundVariable x), s)))
     \<and> (e x = None \<longrightarrow>
          eval_cases n (Var x) s =
            (case definesGet n x s of
               (Inl er, s1) \<Rightarrow> (Inl er, s1)
             | (Inr None, s1) \<Rightarrow> (Inl (UnboundVariable x), s1)
             | (Inr (Some c), s1) \<Rightarrow>
                 (case cellValue s1 c of
                    Some v \<Rightarrow> (Inr v, s1)
                  | None \<Rightarrow> (Inl (UnboundVariable x), s1))))
     \<and> (e x = None \<and> defs s x = None \<longrightarrow>
          eval_cases n (Var x) s = (Inl (UnboundVariable x), s))
     \<and> (\<forall>c. e x = None \<and> defs s x = Some (Resolved c) \<longrightarrow>
          eval_cases n (Var x) s =
            (case cellValue s c of
               Some v \<Rightarrow> (Inr v, s)
             | None \<Rightarrow> (Inl (UnboundVariable x), s)))"
  by (auto simp: eval_cases_Var eval_var_def get_private_def get_private_body_def
        definesGet_def definesGet_body_def
      split: option.splits prod.splits sum.splits)

theorem eval_var_lookup_witness:
  "eval_cases 3 (Var ''x'') ex_lookup_state = (Inr (VNumber 42), ex_lookup_state)
   \<and> eval_cases 3 (Var ''y'') ex_lookup_state = (Inl (UnboundVariable ''y''), ex_lookup_state)
   \<and> eval_cases 3 (Var ''z'') ex_lookup_state = (Inr (VNumber 5), ex_lookup_state)
   \<and> eval_cases 3 (Var ''w'') ex_lookup_state = (Inl (UnboundVariable ''w''), ex_lookup_state)"
proof -
  let ?e = "[''x'' \<mapsto> \<lparr>name = ''x'', cell = 0\<rparr>, ''y'' \<mapsto> \<lparr>name = ''y'', cell = 1\<rparr>]"
  have e: "env ex_lookup_state = Some ?e" by (simp add: ex_lookup_state_def)
  have "eval_cases 3 (Var ''x'') ex_lookup_state = (Inr (VNumber 42), ex_lookup_state)"
    using eval_var_lookup[of ex_lookup_state ?e "''x''" 3] e
    by (simp add: cellValue_def ex_lookup_state_def)
  moreover have "eval_cases 3 (Var ''y'') ex_lookup_state
                   = (Inl (UnboundVariable ''y''), ex_lookup_state)"
    using eval_var_lookup[of ex_lookup_state ?e "''y''" 3] e
    by (simp add: cellValue_def ex_lookup_state_def)
  moreover have "eval_cases 3 (Var ''z'') ex_lookup_state = (Inr (VNumber 5), ex_lookup_state)"
    using eval_var_lookup[of ex_lookup_state ?e "''z''" 3] e
    by (simp add: cellValue_def ex_lookup_state_def definesGet_def definesGet_body_def)
  moreover have "eval_cases 3 (Var ''w'') ex_lookup_state
                   = (Inl (UnboundVariable ''w''), ex_lookup_state)"
    using eval_var_lookup[of ex_lookup_state ?e "''w''" 3] e
    by (simp add: ex_lookup_state_def definesGet_def definesGet_body_def)
  ultimately show ?thesis by blast
qed

lemma mergeEnvs_extend: "mergeEnvs [Some a, Some [x \<mapsto> b]] = a(x \<mapsto> b)"
  by (simp add: mergeEnvs_def)

lemma bindParams_state:
  "snd (bindParams sg args e0 s) = s\<lparr>cells := cells s @ map Some (take (length sg) args)\<rparr>"
proof (induction sg args e0 s rule: bindParams.induct)
  case (1 p ps v vs callEnv s)
  then show ?case by (simp add: allocCell_def)
qed simp_all

lemma bindParams_other:
  "x \<notin> pname ` set (take (length args) sg) \<Longrightarrow> fst (bindParams sg args e0 s) x = e0 x"
proof (induction sg args e0 s rule: bindParams.induct)
  case (1 p ps v vs callEnv s)
  let ?e1 = "mergeEnvs [Some callEnv, Some [pname p \<mapsto> \<lparr>name = pname p, cell = length (cells s)\<rparr>]]"
  let ?s1 = "s\<lparr>cells := cells s @ [Some v]\<rparr>"
  from "1.prems" have np: "x \<noteq> pname p" and nr: "x \<notin> pname ` set (take (length vs) ps)"
    by auto
  have "fst (bindParams ps vs ?e1 ?s1) x = ?e1 x"
    by (rule "1.IH"[OF _ nr]) (simp add: allocCell_def)
  also have "?e1 x = callEnv x"
    using np by (simp add: mergeEnvs_extend)
  finally show ?case by (simp add: allocCell_def)
qed simp_all

lemma bindParams_bound:
  "i < min (length sg) (length args) \<Longrightarrow>
   (\<forall>j. i < j \<and> j < min (length sg) (length args) \<longrightarrow> pname (sg ! j) \<noteq> pname (sg ! i)) \<Longrightarrow>
   fst (bindParams sg args e0 s) (pname (sg ! i))
     = Some \<lparr>name = pname (sg ! i), cell = length (cells s) + i\<rparr>"
proof (induction sg args e0 s arbitrary: i rule: bindParams.induct)
  case (1 p ps v vs callEnv s)
  show ?case
  proof (cases i)
    case 0
    have "pname p \<notin> pname ` set (take (length vs) ps)"
    proof
      assume "pname p \<in> pname ` set (take (length vs) ps)"
      then obtain k where k: "k < length (take (length vs) ps)"
        and eq: "pname (take (length vs) ps ! k) = pname p"
        by (auto simp: in_set_conv_nth)
      then have "k < min (length ps) (length vs)" by simp
      with "1.prems"(2) 0 have "pname ((p # ps) ! Suc k) \<noteq> pname p"
        by (metis Suc_less_eq length_Cons min_Suc_Suc nth_Cons_0 zero_less_Suc)
      with k eq show False by simp
    qed
    from bindParams_other[OF this] 0 show ?thesis
      by (simp add: allocCell_def mergeEnvs_extend)
  next
    case (Suc i')
    with "1.prems"(1) have lt: "i' < min (length ps) (length vs)" by simp
    have nd: "\<forall>j. i' < j \<and> j < min (length ps) (length vs) \<longrightarrow> pname (ps ! j) \<noteq> pname (ps ! i')"
    proof (intro allI impI)
      fix j assume j: "i' < j \<and> j < min (length ps) (length vs)"
      with "1.prems"(2) Suc have "pname ((p # ps) ! Suc j) \<noteq> pname ((p # ps) ! Suc i')"
        by (metis Suc_less_eq length_Cons min_Suc_Suc)
      then show "pname (ps ! j) \<noteq> pname (ps ! i')" by simp
    qed
    obtain c s1 where al: "allocCell (Some v) s = (c, s1)" by (cases "allocCell (Some v) s")
    then have s1: "length (cells s1) = Suc (length (cells s))"
      by (auto simp: allocCell_def)
    from "1.IH"[OF al[symmetric] lt nd] al s1 Suc show ?thesis
      by simp
  qed
qed simp_all

text \<open>
  Claim C7, amended. When the signature check passes, no parameter is named
  \<open>__proto__\<close> and the captured environment has no binding of that name, \<open>call\<close> on an
  interpreted closure evaluates the body in a call environment and a store such that:
  one new cell was made for each parameter that has an argument at its position, any
  variadic last parameter included, holding that one argument (the cell of the
  parameter at position \<open>i\<close> is the \<open>i\<close>-th cell after those of the store before the
  call); the name of each such parameter (the last of that name, should a name repeat)
  is bound to its cell; every other name is bound as in the captured environment;
  arguments beyond the length of the signature get no cell and no binding. The name
  \<open>__proto__\<close> is left out because \<open>Object.assign\<close> stores it as the prototype of the
  merged object and not as a key (see \<open>mergeEnvs\<close>).
\<close>

theorem call_binds_positionally:
  "checkCallAgainstTypeSignature args sg = None
   \<and> ''__proto__'' \<notin> pname ` set sg
   \<and> (\<forall>e. fenv = Some e \<longrightarrow> e ''__proto__'' = None) \<longrightarrow>
     (\<exists>callEnv s1.
        call (Suc n) (VFn sg (Interpreted b) fenv) args s
          = eval_private n b (Some callEnv) None s1
        \<and> s1 = s\<lparr>cells := cells s @ map Some (take (length sg) args)\<rparr>
        \<and> (\<forall>i. i < min (length sg) (length args)
                \<and> (\<forall>j. i < j \<and> j < min (length sg) (length args)
                         \<longrightarrow> pname (sg ! j) \<noteq> pname (sg ! i))
              \<longrightarrow> callEnv (pname (sg ! i))
                     = Some \<lparr>name = pname (sg ! i), cell = length (cells s) + i\<rparr>
                  \<and> cellValue s (length (cells s) + i) = None
                  \<and> cellValue s1 (length (cells s) + i) = Some (args ! i))
        \<and> (\<forall>x. x \<notin> pname ` set (take (length args) sg)
              \<longrightarrow> callEnv x = (case fenv of None \<Rightarrow> None | Some e \<Rightarrow> e x))
        \<and> callEnv ''__proto__'' = None)"
proof (intro impI)
  assume hyp: "checkCallAgainstTypeSignature args sg = None
   \<and> ''__proto__'' \<notin> pname ` set sg
   \<and> (\<forall>e. fenv = Some e \<longrightarrow> e ''__proto__'' = None)"
  then have ok: "checkCallAgainstTypeSignature args sg = None"
    and np: "''__proto__'' \<notin> pname ` set sg"
    and nf: "\<forall>e. fenv = Some e \<longrightarrow> e ''__proto__'' = None"
    by simp_all
  let ?e0 = "case fenv of None \<Rightarrow> Map.empty | Some e \<Rightarrow> e"
  let ?callEnv = "fst (bindParams sg args ?e0 s)"
  let ?s1 = "snd (bindParams sg args ?e0 s)"
  have run: "call (Suc n) (VFn sg (Interpreted b) fenv) args s
               = eval_private n b (Some ?callEnv) None ?s1"
    using ok by (simp add: call_body_def split: prod.splits)
  have st: "?s1 = s\<lparr>cells := cells s @ map Some (take (length sg) args)\<rparr>"
    by (rule bindParams_state)
  have bound: "?callEnv (pname (sg ! i))
                 = Some \<lparr>name = pname (sg ! i), cell = length (cells s) + i\<rparr>
               \<and> cellValue s (length (cells s) + i) = None
               \<and> cellValue ?s1 (length (cells s) + i) = Some (args ! i)"
    if i: "i < min (length sg) (length args)"
      and last: "\<forall>j. i < j \<and> j < min (length sg) (length args)
                   \<longrightarrow> pname (sg ! j) \<noteq> pname (sg ! i)"
    for i
  proof -
    have "?callEnv (pname (sg ! i)) = Some \<lparr>name = pname (sg ! i), cell = length (cells s) + i\<rparr>"
      using i last by (rule bindParams_bound)
    moreover have "cellValue ?s1 (length (cells s) + i) = Some (args ! i)"
      using i by (simp add: st cellValue_def nth_append)
    moreover have "cellValue s (length (cells s) + i) = None"
      by (simp add: cellValue_def)
    ultimately show ?thesis by blast
  qed
  have other: "?callEnv x = (case fenv of None \<Rightarrow> None | Some e \<Rightarrow> e x)"
    if "x \<notin> pname ` set (take (length args) sg)" for x
    using bindParams_other[OF that, of ?e0 s] by (simp split: option.splits)
  have "''__proto__'' \<notin> pname ` set (take (length args) sg)"
    using np by (auto dest: in_set_takeD)
  from other[OF this] nf have proto: "?callEnv ''__proto__'' = None"
    by (simp split: option.splits)
  from run st bound other proto show
    "\<exists>callEnv s1.
        call (Suc n) (VFn sg (Interpreted b) fenv) args s
          = eval_private n b (Some callEnv) None s1
        \<and> s1 = s\<lparr>cells := cells s @ map Some (take (length sg) args)\<rparr>
        \<and> (\<forall>i. i < min (length sg) (length args)
                \<and> (\<forall>j. i < j \<and> j < min (length sg) (length args)
                         \<longrightarrow> pname (sg ! j) \<noteq> pname (sg ! i))
              \<longrightarrow> callEnv (pname (sg ! i))
                     = Some \<lparr>name = pname (sg ! i), cell = length (cells s) + i\<rparr>
                  \<and> cellValue s (length (cells s) + i) = None
                  \<and> cellValue s1 (length (cells s) + i) = Some (args ! i))
        \<and> (\<forall>x. x \<notin> pname ` set (take (length args) sg)
              \<longrightarrow> callEnv x = (case fenv of None \<Rightarrow> None | Some e \<Rightarrow> e x))
        \<and> callEnv ''__proto__'' = None"
    by (intro exI[of _ ?callEnv] exI[of _ ?s1]) (simp only: simp_thms, blast)
qed

theorem call_binds_positionally_witness:
  "\<exists>callEnv s1.
      call 5 ex_variadic [VNumber 1, VNumber 2, VNumber 3] ex_state
        = eval_private 4 (Var ''rest'') (Some callEnv) None s1
      \<and> s1 = ex_state\<lparr>cells := [Some (VNumber 1), Some (VNumber 2)]\<rparr>
      \<and> callEnv ''x'' = Some \<lparr>name = ''x'', cell = 0\<rparr>
      \<and> cellValue s1 0 = Some (VNumber 1)
      \<and> callEnv ''rest'' = Some \<lparr>name = ''rest'', cell = 1\<rparr>
      \<and> cellValue s1 1 = Some (VNumber 2)
      \<and> callEnv ''y'' = None
      \<and> callEnv ''__proto__'' = None"
proof -
  let ?sg = "[Param ''x'' None False, Param ''rest'' None True]"
  let ?args = "[VNumber 1, VNumber 2, VNumber 3]"
  have ok: "checkCallAgainstTypeSignature ?args ?sg = None"
    by (simp add: checkCallAgainstTypeSignature_def isVariadicSignature_def
          fixedParamCount_def paramForArg_def)
  have np: "''__proto__'' \<notin> pname ` set ?sg" by simp
  have nf: "\<forall>e. (None :: Environment option) = Some e \<longrightarrow> e ''__proto__'' = None" by simp
  from call_binds_positionally[of ?args ?sg None 4 "Var ''rest''" ex_state] ok np nf
  obtain callEnv s1 where
    run: "call (Suc 4) (VFn ?sg (Interpreted (Var ''rest'')) None) ?args ex_state
            = eval_private 4 (Var ''rest'') (Some callEnv) None s1"
    and st: "s1 = ex_state\<lparr>cells := cells ex_state @ map Some (take (length ?sg) ?args)\<rparr>"
    and bound: "\<And>i. i < min (length ?sg) (length ?args) \<Longrightarrow>
                  (\<forall>j. i < j \<and> j < min (length ?sg) (length ?args)
                         \<longrightarrow> pname (?sg ! j) \<noteq> pname (?sg ! i)) \<Longrightarrow>
                  callEnv (pname (?sg ! i))
                    = Some \<lparr>name = pname (?sg ! i), cell = length (cells ex_state) + i\<rparr>
                  \<and> cellValue s1 (length (cells ex_state) + i) = Some (?args ! i)"
    and other: "\<And>x. x \<notin> pname ` set (take (length ?args) ?sg) \<Longrightarrow> callEnv x = None"
    and proto: "callEnv ''__proto__'' = None"
    by auto
  have j1: "\<forall>j. (0::nat) < j \<and> j < min (length ?sg) (length ?args)
                \<longrightarrow> pname (?sg ! j) \<noteq> pname (?sg ! 0)"
    by (auto simp: less_Suc_eq)
  have j2: "\<forall>j. (1::nat) < j \<and> j < min (length ?sg) (length ?args)
                \<longrightarrow> pname (?sg ! j) \<noteq> pname (?sg ! 1)"
    by auto
  from bound[of 0, OF _ j1]
  have x: "callEnv ''x'' = Some \<lparr>name = ''x'', cell = 0\<rparr> \<and> cellValue s1 0 = Some (VNumber 1)"
    by (simp add: ex_state_def)
  from bound[of 1, OF _ j2]
  have r: "callEnv ''rest'' = Some \<lparr>name = ''rest'', cell = 1\<rparr>
           \<and> cellValue s1 1 = Some (VNumber 2)"
    by (simp add: ex_state_def)
  from other[of "''y''"] have y: "callEnv ''y'' = None" by simp
  from st have st': "s1 = ex_state\<lparr>cells := [Some (VNumber 1), Some (VNumber 2)]\<rparr>"
    by (simp add: ex_state_def)
  from run have run': "call 5 ex_variadic ?args ex_state
                         = eval_private 4 (Var ''rest'') (Some callEnv) None s1"
    by (simp add: ex_variadic_def eval_nat_numeral)
  from run' st' x r y proto show ?thesis by blast
qed


theorem eval_restores_env_witness:
  "fst (eval 5 ex_let Map.empty ex_lookup_state) = Inr (VNumber 1)
   \<and> env (snd (eval 5 ex_let Map.empty ex_lookup_state)) = env ex_lookup_state
   \<and> fst (eval_private 5 ex_let None None ex_lookup_state) = Inr (VNumber 1)
   \<and> env (snd (eval_private 5 ex_let None None ex_lookup_state)) = env ex_lookup_state"
proof -
  have a: "fst (eval 5 ex_let Map.empty ex_lookup_state) = Inr (VNumber 1)"
    by (simp add: eval_nat_numeral eval_defs ex_lookup_state_def ex_let_def map_add_def)
  have b: "fst (eval_private 5 ex_let None None ex_lookup_state) = Inr (VNumber 1)"
    by (simp add: eval_nat_numeral eval_defs ex_lookup_state_def ex_let_def map_add_def)
  from a have "eval 5 ex_let Map.empty ex_lookup_state
                 = (Inr (VNumber 1), snd (eval 5 ex_let Map.empty ex_lookup_state))"
    by (metis prod.collapse)
  with eval_restores_env[of 5 ex_let "Some Map.empty" None ex_lookup_state "VNumber 1"
      "snd (eval 5 ex_let Map.empty ex_lookup_state)" Map.empty]
  have c: "env (snd (eval 5 ex_let Map.empty ex_lookup_state)) = env ex_lookup_state"
    by simp
  from b have "eval_private 5 ex_let None None ex_lookup_state
                 = (Inr (VNumber 1), snd (eval_private 5 ex_let None None ex_lookup_state))"
    by (metis prod.collapse)
  with eval_restores_env[of 5 ex_let None None ex_lookup_state "VNumber 1"
      "snd (eval_private 5 ex_let None None ex_lookup_state)" Map.empty]
  have d: "env (snd (eval_private 5 ex_let None None ex_lookup_state)) = env ex_lookup_state"
    by simp
  from a b c d show ?thesis by blast
qed

text \<open>When the evaluation throws, the field is left as the evaluation set it.\<close>

lemma env_not_restored_on_error:
  "eval 5 (Var ''w'') [''q'' \<mapsto> \<lparr>name = ''q'', cell = 0\<rparr>] ex_state
     = (Inl (UnboundVariable ''w''),
        ex_state\<lparr>env := Some [''q'' \<mapsto> \<lparr>name = ''q'', cell = 0\<rparr>]\<rparr>)"
  by (simp add: eval_nat_numeral eval_defs ex_state_def map_add_def)

text \<open>
  A builtin that calls back into the evaluator: \<open>(map (lambda (x) x) (quote (1 2)))\<close>.
\<close>

lemma map_example:
  "fst (eval (n + 6)
          (Call (Var ''map'')
             [Lambda [NameBinding ''x'' None] (Var ''x''),
              Lit (DList [DNumber 1, DNumber 2] None)])
          Map.empty ex_map_state)
     = Inr (VList [VNumber 1, VNumber 2] None)"
  by (simp add: eval_nat_numeral eval_defs ex_map_state_def map_add_def upt_rec)

end
